theory Spec2Isabelle
  imports Complex_Main
begin

section \<open>Python values, dictionaries and exceptions\<close>

text \<open>
  The serializers of \<^verbatim>\<open>cherrymusic/api/serializers.py\<close> work on the validated data of
  Django REST framework: dictionaries whose values are numbers, strings, \<^verbatim>\<open>None\<close> and
  nested dictionaries. \<open>PlaylistSerializer.sync_tracks\<close> edits the track dictionaries by
  key (\<^verbatim>\<open>pop\<close>, item assignment, \<^verbatim>\<open>**track_data\<close>), so they are kept as dictionaries:
  association lists in insertion order.
\<close>

datatype pyval =
    PNone
  | PBool bool
  | PInt int
  | PFloat real
  | PStr string
  | PDict "(string \<times> pyval) list"

type_synonym dict = "(string \<times> pyval) list"

datatype model = User | Playlist | Track | File | Youtube | PlaylistPosition

datatype error =
    KeyError string
  | TypeError
  | AttributeError
  | ValueError
  | DoesNotExist model
  | MultipleObjectsReturned model

text \<open>Truth value of a Python object, as \<^verbatim>\<open>if youtube_data:\<close> tests it.\<close>

fun truthy :: "pyval \<Rightarrow> bool" where
  "truthy PNone = False"
| "truthy (PBool b) = b"
| "truthy (PInt i) = (i \<noteq> 0)"
| "truthy (PFloat r) = (r \<noteq> 0)"
| "truthy (PStr s) = (s \<noteq> [])"
| "truthy (PDict d) = (d \<noteq> [])"

text \<open>\<^verbatim>\<open>d[k] = v\<close>: an existing key keeps its place, a new key goes to the end.\<close>

fun setitem :: "dict \<Rightarrow> string \<Rightarrow> pyval \<Rightarrow> dict" where
  "setitem [] k v = [(k, v)]"
| "setitem ((k', v') # d) k v = (if k' = k then (k, v) # d else (k', v') # setitem d k v)"

text \<open>\<^verbatim>\<open>del d[k]\<close> for a key that may be absent.\<close>

definition delkey :: "string \<Rightarrow> dict \<Rightarrow> dict" where
  "delkey k d = filter (\<lambda>kv. fst kv \<noteq> k) d"

text \<open>\<^verbatim>\<open>d.pop(k)\<close>: \<open>None\<close> stands for the KeyError the caller raises.\<close>

definition pop :: "dict \<Rightarrow> string \<Rightarrow> (pyval \<times> dict) option" where
  "pop d k = (case map_of d k of None \<Rightarrow> None | Some v \<Rightarrow> Some (v, delkey k d))"

text \<open>\<^verbatim>\<open>d.pop(k, default)\<close>.\<close>

definition pop_default :: "dict \<Rightarrow> string \<Rightarrow> pyval \<Rightarrow> pyval \<times> dict" where
  "pop_default d k dflt = (case map_of d k of None \<Rightarrow> (dflt, d) | Some v \<Rightarrow> (v, delkey k d))"

section \<open>The database\<close>

text \<open>
  The models (\<^verbatim>\<open>storage.models\<close>, \<^verbatim>\<open>playlist.models\<close>) are imported by the serializers
  and are not part of the file. A table is the list of its rows, in insertion order; the
  columns are the keyword arguments the serializers pass to the manager methods. The
  playback numbers of a \<open>PlaylistPosition\<close> row are kept as the Python values handed to
  \<^verbatim>\<open>update_or_create\<close>. \<open>Track.objects.create\<close> stores \<^verbatim>\<open>playlist\<close>, \<^verbatim>\<open>file\<close>,
  \<^verbatim>\<open>youtube\<close> and the remaining keyword arguments of \<^verbatim>\<open>**track_data\<close> (\<^verbatim>\<open>order\<close>,
  \<^verbatim>\<open>type\<close>) as they are given; both references are nullable, as
  \<open>TrackSerializer\<close> declares them (\<^verbatim>\<open>allow_null=True\<close>).
\<close>

record playlist =
  p_id :: int
  p_name :: string
  p_owner :: "int option"
  p_public :: bool

record track =
  t_id :: int
  t_playlist :: int
  t_file :: "int option"
  t_youtube :: "int option"
  t_fields :: dict

record youtube =
  y_id :: int
  y_video_id :: pyval
  y_attrs :: dict

record position =
  pp_user_id :: int
  pp_playlist :: int
  pp_playback_position :: pyval
  pp_active_track_idx :: pyval

record db =
  users :: "int list"
  files :: "int list"
  playlists :: "playlist list"
  tracks :: "track list"
  youtubes :: "youtube list"
  positions :: "position list"
  next_playlist_id :: int
  next_track_id :: int
  next_youtube_id :: int

text \<open>The \<^verbatim>\<open>order\<close> column of a track row.\<close>

definition t_order :: "track \<Rightarrow> pyval option" where
  "t_order t = map_of (t_fields t) ''order''"

text \<open>
  \<^verbatim>\<open>Model.objects.get(...)\<close> on the rows that match the lookup: no row raises
  \<open>DoesNotExist\<close>, more than one raises \<open>MultipleObjectsReturned\<close>.
\<close>

fun objects_get :: "model \<Rightarrow> 'a list \<Rightarrow> error + 'a" where
  "objects_get m [] = Inl (DoesNotExist m)"
| "objects_get m [x] = Inr x"
| "objects_get m (x # y # zs) = Inl (MultipleObjectsReturned m)"

text \<open>
  \<^verbatim>\<open>with transaction.atomic():\<close> leaves the state the block reached when the block
  completes, and the state it started from when the block raises.
\<close>

definition atomic :: "db \<Rightarrow> error + 'a \<Rightarrow> db \<Rightarrow> db" where
  "atomic s r s' = (case r of Inl e \<Rightarrow> s | Inr v \<Rightarrow> s')"

section \<open>PlaylistSerializer\<close>

subsection \<open>set_playback_position\<close>

text \<open>
  \<^verbatim>\<open>PlaylistPosition.objects.update_or_create(user_id=user.id, playlist=playlist,
  defaults=dict(playback_position=..., active_track_idx=...))\<close>: the row of the pair is
  updated in place, or created.
\<close>

definition pos_match :: "int \<Rightarrow> int \<Rightarrow> position \<Rightarrow> bool" where
  "pos_match pl u r = (pp_user_id r = u \<and> pp_playlist r = pl)"

definition set_playback_position ::
  "playlist \<Rightarrow> pyval \<Rightarrow> pyval \<Rightarrow> int \<Rightarrow> db \<Rightarrow> error + db" where
  "set_playback_position playlist active_track_idx playback_position user s =
     (case filter (pos_match (p_id playlist) user) (positions s) of
        [] \<Rightarrow> Inr (s\<lparr>positions := positions s @
                 [\<lparr>pp_user_id = user, pp_playlist = p_id playlist,
                   pp_playback_position = playback_position,
                   pp_active_track_idx = active_track_idx\<rparr>]\<rparr>)
      | [r] \<Rightarrow> Inr (s\<lparr>positions :=
                 map (\<lambda>r. if pos_match (p_id playlist) user r
                           then r\<lparr>pp_playback_position := playback_position,
                                  pp_active_track_idx := active_track_idx\<rparr>
                           else r) (positions s)\<rparr>)
      | _ \<Rightarrow> Inl (MultipleObjectsReturned PlaylistPosition))"

subsection \<open>sync_tracks\<close>

text \<open>
  Lines 227 to 234: \<^verbatim>\<open>Youtube.objects.get_or_create(video_id=youtube_id,
  defaults=youtube_data)[0]\<close> when the popped \<^verbatim>\<open>youtube\<close> value is truthy; the result is
  the id of the Youtube row the track will reference. \<open>yt_match\<close> is the lookup
  \<^verbatim>\<open>Youtube.objects.filter(video_id=...)\<close>.
\<close>

definition yt_match :: "pyval \<Rightarrow> db \<Rightarrow> youtube list" where
  "yt_match video_id s = filter (\<lambda>y. y_video_id y = video_id) (youtubes s)"

definition youtube_get_or_create :: "pyval \<Rightarrow> dict \<Rightarrow> db \<Rightarrow> error + (int \<times> db)" where
  "youtube_get_or_create video_id defaults s =
     (case yt_match video_id s of
        [] \<Rightarrow> Inr (next_youtube_id s,
                 s\<lparr>youtubes := youtubes s @
                      [\<lparr>y_id = next_youtube_id s, y_video_id = video_id, y_attrs = defaults\<rparr>],
                   next_youtube_id := next_youtube_id s + 1\<rparr>)
      | [y] \<Rightarrow> Inr (y_id y, s)
      | _ \<Rightarrow> Inl (MultipleObjectsReturned Youtube))"

definition resolve_youtube :: "pyval \<Rightarrow> db \<Rightarrow> error + (int option \<times> db)" where
  "resolve_youtube youtube_data s =
     (if truthy youtube_data then
        (case youtube_data of
           PDict yd \<Rightarrow>
             (case pop yd ''youtube_id'' of
                None \<Rightarrow> Inl (KeyError ''youtube_id'')
              | Some (youtube_id, yd') \<Rightarrow>
                  (case youtube_get_or_create youtube_id yd' s of
                     Inl e \<Rightarrow> Inl e
                   | Inr (y, s') \<Rightarrow> Inr (Some y, s')))
         | _ \<Rightarrow> Inl AttributeError)
      else Inr (None, s))"

text \<open>
  Lines 235 to 238: \<^verbatim>\<open>File.objects.get(id=file_data['id'])\<close> when the popped
  \<^verbatim>\<open>file\<close> value is truthy. \<open>FileSerializer\<close> declares \<^verbatim>\<open>id\<close> as an IntegerField, so
  the key of a validated descriptor is an integer; any other value is refused here.
\<close>

definition resolve_file :: "pyval \<Rightarrow> db \<Rightarrow> error + int option" where
  "resolve_file file_data s =
     (if truthy file_data then
        (case file_data of
           PDict fd \<Rightarrow>
             (case map_of fd ''id'' of
                None \<Rightarrow> Inl (KeyError ''id'')
              | Some (PInt i) \<Rightarrow>
                  (case objects_get File (filter (\<lambda>f. f = i) (files s)) of
                     Inl e \<Rightarrow> Inl e
                   | Inr f \<Rightarrow> Inr (Some f))
              | Some _ \<Rightarrow> Inl ValueError)
         | _ \<Rightarrow> Inl TypeError)
      else Inr None)"

text \<open>\<^verbatim>\<open>Track.objects.create(playlist=playlist, file=file, youtube=youtube, **track_data)\<close>.\<close>

definition track_create :: "playlist \<Rightarrow> int option \<Rightarrow> int option \<Rightarrow> dict \<Rightarrow> db \<Rightarrow> db" where
  "track_create playlist file youtube track_data s =
     s\<lparr>tracks := tracks s @
          [\<lparr>t_id = next_track_id s, t_playlist = p_id playlist, t_file = file,
            t_youtube = youtube, t_fields = track_data\<rparr>],
       next_track_id := next_track_id s + 1\<rparr>"

text \<open>
  The body of the loop (lines 222 to 245) for the descriptor at index \<open>idx\<close>. The
  dictionary is changed in place, so the result carries the dictionary as the caller sees
  it afterwards, also when the body raises.
\<close>

definition sync_track ::
  "playlist \<Rightarrow> nat \<Rightarrow> dict \<Rightarrow> db \<Rightarrow> (error + unit) \<times> dict \<times> db" where
  "sync_track playlist idx track_data s =
     (let td1 = setitem track_data ''order'' (PInt (int idx));
          td2 = snd (pop_default td1 ''id'' (PStr ''''));
          td3 = snd (pop_default td2 ''playlist'' (PStr ''''))
      in case pop td3 ''youtube'' of
           None \<Rightarrow> (Inl (KeyError ''youtube''), td3, s)
         | Some (youtube_data, td4) \<Rightarrow>
             (case resolve_youtube youtube_data s of
                Inl e \<Rightarrow> (Inl e, td4, s)
              | Inr (youtube, s1) \<Rightarrow>
                  (case pop td4 ''file'' of
                     None \<Rightarrow> (Inl (KeyError ''file''), td4, s1)
                   | Some (file_data, td5) \<Rightarrow>
                       (case resolve_file file_data s1 of
                          Inl e \<Rightarrow> (Inl e, td5, s1)
                        | Inr file \<Rightarrow>
                            (Inr (), td5, track_create playlist file youtube td5 s1)))))"

text \<open>\<^verbatim>\<open>for idx, track_data in enumerate(tracks_data)\<close>, from index \<open>idx\<close> on.\<close>

fun sync_loop ::
  "playlist \<Rightarrow> nat \<Rightarrow> dict list \<Rightarrow> db \<Rightarrow> (error + unit) \<times> dict list \<times> db" where
  "sync_loop playlist idx [] s = (Inr (), [], s)"
| "sync_loop playlist idx (track_data # rest) s =
     (case sync_track playlist idx track_data s of
        (Inl e, td', s') \<Rightarrow> (Inl e, td' # rest, s')
      | (Inr u, td', s') \<Rightarrow>
          (case sync_loop playlist (Suc idx) rest s' of
             (r, rest', s'') \<Rightarrow> (r, td' # rest', s'')))"

text \<open>
  \<open>sync_tracks\<close>: inside one transaction, delete the tracks of the playlist and create
  them anew. The result is the outcome, the caller's descriptor list after the call and
  the database. \<open>playlist_tracks\<close> is \<^verbatim>\<open>Track.objects.filter(playlist=playlist)\<close>.
\<close>

definition playlist_tracks :: "playlist \<Rightarrow> db \<Rightarrow> track list" where
  "playlist_tracks playlist s = filter (\<lambda>t. t_playlist t = p_id playlist) (tracks s)"

definition tracks_delete :: "playlist \<Rightarrow> db \<Rightarrow> db" where
  "tracks_delete playlist s = s\<lparr>tracks := filter (\<lambda>t. t_playlist t \<noteq> p_id playlist) (tracks s)\<rparr>"

definition sync_tracks ::
  "playlist \<Rightarrow> dict list \<Rightarrow> db \<Rightarrow> (error + unit) \<times> dict list \<times> db" where
  "sync_tracks playlist tracks_data s =
     (case sync_loop playlist 0 tracks_data (tracks_delete playlist s) of
        (r, tracks_data', s') \<Rightarrow> (r, tracks_data', atomic s r s'))"

subsection \<open>update and create\<close>

text \<open>
  The validated data of \<open>PlaylistSerializer\<close>, field by field as the serializer declares
  them: \<^verbatim>\<open>id\<close> (popped with the default \<open>-1\<close>), \<^verbatim>\<open>name\<close>, \<^verbatim>\<open>tracks\<close>, \<^verbatim>\<open>owner\<close>
  (\<^verbatim>\<open>allow_null=True\<close>: \<open>None\<close>, or a dictionary with the integer \<^verbatim>\<open>id\<close>),
  \<^verbatim>\<open>get_active_track_idx\<close> (IntegerField), \<^verbatim>\<open>get_playback_position\<close> (FloatField) and
  \<^verbatim>\<open>public\<close>.
\<close>

record validated_data =
  vd_id :: "int option"
  vd_name :: string
  vd_tracks :: "dict list"
  vd_owner :: "int option"
  vd_active_track_idx :: int
  vd_playback_position :: real
  vd_public :: bool

text \<open>\<^verbatim>\<open>User.objects.get(id=validated_data.pop('owner')['id'])\<close>.\<close>

definition user_get :: "int option \<Rightarrow> db \<Rightarrow> error + int" where
  "user_get owner s =
     (case owner of
        None \<Rightarrow> Inl TypeError
      | Some uid \<Rightarrow> objects_get User (filter (\<lambda>u. u = uid) (users s)))"

text \<open>\<^verbatim>\<open>Playlist.objects.filter(id=id).update(name=..., public=...)\<close>.\<close>

definition playlist_update :: "int \<Rightarrow> string \<Rightarrow> bool \<Rightarrow> db \<Rightarrow> db" where
  "playlist_update i name public s =
     s\<lparr>playlists := map (\<lambda>p. if p_id p = i then p\<lparr>p_name := name, p_public := public\<rparr> else p)
                        (playlists s)\<rparr>"

text \<open>
  The block of \<open>update\<close> under \<^verbatim>\<open>transaction.atomic()\<close> (lines 254 to 262). The call
  on line 261 passes \<^verbatim>\<open>playback_position\<close> where \<open>set_playback_position\<close> takes
  \<^verbatim>\<open>active_track_idx\<close>, and \<^verbatim>\<open>active_track_idx\<close> where it takes
  \<^verbatim>\<open>playback_position\<close>.
\<close>

definition update_body :: "int \<Rightarrow> int \<Rightarrow> validated_data \<Rightarrow> db \<Rightarrow> (error + playlist) \<times> db" where
  "update_body i user vd s =
     (let s1 = playlist_update i (vd_name vd) (vd_public vd) s
      in case objects_get Playlist (filter (\<lambda>p. p_id p = i) (playlists s1)) of
           Inl e \<Rightarrow> (Inl e, s1)
         | Inr playlist \<Rightarrow>
             (let playback_position = PFloat (vd_playback_position vd);
                  active_track_idx = PInt (vd_active_track_idx vd)
              in case set_playback_position playlist playback_position active_track_idx user s1 of
                   Inl e \<Rightarrow> (Inl e, s1)
                 | Inr s2 \<Rightarrow>
                     (case sync_tracks playlist (vd_tracks vd) s2 of
                        (Inl e, tds, s3) \<Rightarrow> (Inl e, s3)
                      | (Inr u, tds, s3) \<Rightarrow> (Inr playlist, s3))))"

definition update :: "playlist \<Rightarrow> validated_data \<Rightarrow> db \<Rightarrow> (error + playlist) \<times> db" where
  "update instance vd s =
     (let i = (case vd_id vd of None \<Rightarrow> - 1 | Some j \<Rightarrow> j)
      in case user_get (vd_owner vd) s of
           Inl e \<Rightarrow> (Inl e, s)
         | Inr user \<Rightarrow>
             (case update_body i user vd s of (r, s') \<Rightarrow> (r, atomic s r s')))"

text \<open>
  The block of \<open>create\<close> under \<^verbatim>\<open>transaction.atomic()\<close> (lines 272 to 276):
  \<^verbatim>\<open>Playlist.objects.create(**validated_data)\<close> with the remaining keys
  \<^verbatim>\<open>name\<close>, \<^verbatim>\<open>owner\<close> and \<^verbatim>\<open>public\<close>.
\<close>

definition create_body :: "int \<Rightarrow> validated_data \<Rightarrow> db \<Rightarrow> (error + playlist) \<times> db" where
  "create_body user vd s =
     (let playback_position = PFloat (vd_playback_position vd);
          active_track_idx = PInt (vd_active_track_idx vd);
          playlist = \<lparr>p_id = next_playlist_id s, p_name = vd_name vd,
                      p_owner = Some user, p_public = vd_public vd\<rparr>;
          s1 = s\<lparr>playlists := playlists s @ [playlist],
                 next_playlist_id := next_playlist_id s + 1\<rparr>
      in case set_playback_position playlist active_track_idx playback_position user s1 of
           Inl e \<Rightarrow> (Inl e, s1)
         | Inr s2 \<Rightarrow>
             (case sync_tracks playlist (vd_tracks vd) s2 of
                (Inl e, tds, s3) \<Rightarrow> (Inl e, s3)
              | (Inr u, tds, s3) \<Rightarrow> (Inr playlist, s3)))"

definition create :: "validated_data \<Rightarrow> db \<Rightarrow> (error + playlist) \<times> db" where
  "create vd s =
     (case user_get (vd_owner vd) s of
        Inl e \<Rightarrow> (Inl e, s)
      | Inr user \<Rightarrow>
          (case create_body user vd s of (r, s') \<Rightarrow> (r, atomic s r s')))"

section \<open>Notions used by the properties\<close>

text \<open>
  A descriptor after a completed pass of the loop body: \<^verbatim>\<open>order\<close> set to the index,
  \<^verbatim>\<open>id\<close>, \<^verbatim>\<open>playlist\<close>, \<^verbatim>\<open>youtube\<close> and \<^verbatim>\<open>file\<close> popped.
\<close>

definition stripped :: "nat \<Rightarrow> dict \<Rightarrow> dict" where
  "stripped idx td =
     delkey ''file'' (delkey ''youtube'' (delkey ''playlist'' (delkey ''id''
       (setitem td ''order'' (PInt (int idx))))))"

text \<open>What a track row holds apart from its own identity and its playlist.\<close>

definition track_content :: "track \<Rightarrow> int option \<times> int option \<times> dict" where
  "track_content t = (t_file t, t_youtube t, t_fields t)"

text \<open>The keys \<^verbatim>\<open>(playlist, user)\<close> of the PlaylistPosition rows.\<close>

definition position_keys :: "db \<Rightarrow> (int \<times> int) list" where
  "position_keys s = map (\<lambda>r. (pp_playlist r, pp_user_id r)) (positions s)"

text \<open>
  The states reached from an empty PlaylistPosition table by calls of
  \<open>set_playback_position\<close> that return.
\<close>

inductive position_reachable :: "db \<Rightarrow> bool" where
  init: "positions s = [] \<Longrightarrow> position_reachable s"
| step: "position_reachable s \<Longrightarrow>
         set_playback_position playlist active_track_idx playback_position user s = Inr s' \<Longrightarrow>
         position_reachable s'"

text \<open>
  The external identifier a track descriptor carries: the \<^verbatim>\<open>youtube_id\<close> of its
  \<^verbatim>\<open>youtube\<close> dictionary.
\<close>

definition carries :: "dict \<Rightarrow> pyval \<Rightarrow> bool" where
  "carries td v =
     (case map_of td ''youtube'' of
        Some (PDict yd) \<Rightarrow> map_of yd ''youtube_id'' = Some v
      | _ \<Rightarrow> False)"

section \<open>Example data\<close>

definition ex_playlist :: playlist where
  "ex_playlist = \<lparr>p_id = 1, p_name = ''mix'', p_owner = Some 7, p_public = False\<rparr>"

definition ex_db :: db where
  "ex_db =
     \<lparr>users = [7, 8], files = [3],
      playlists = [ex_playlist],
      tracks = [\<lparr>t_id = 1, t_playlist = 1, t_file = Some 3, t_youtube = None,
                 t_fields = [(''order'', PInt 0), (''type'', PInt 0)]\<rparr>],
      youtubes = [],
      positions = [\<lparr>pp_user_id = 7, pp_playlist = 1, pp_playback_position = PFloat 10,
                    pp_active_track_idx = PInt 0\<rparr>],
      next_playlist_id = 2, next_track_id = 2, next_youtube_id = 1\<rparr>"

definition file_td :: "int \<Rightarrow> dict" where
  "file_td i =
     [(''order'', PInt 5), (''type'', PInt 0),
      (''file'', PDict [(''id'', PInt i), (''filename'', PStr ''a.mp3'')]),
      (''youtube'', PNone)]"

definition yt_td :: "string \<Rightarrow> string \<Rightarrow> dict" where
  "yt_td v title =
     [(''order'', PInt 9), (''type'', PInt 1), (''file'', PNone),
      (''youtube'', PDict [(''youtube_id'', PStr v), (''title'', PStr title),
                           (''views'', PInt 10), (''duration'', PInt 100)])]"

definition neither_td :: dict where
  "neither_td = [(''order'', PInt 0), (''type'', PInt 0), (''file'', PNone), (''youtube'', PNone)]"

definition both_td :: dict where
  "both_td =
     [(''order'', PInt 0), (''type'', PInt 0),
      (''file'', PDict [(''id'', PInt 3), (''filename'', PStr ''a.mp3'')]),
      (''youtube'', PDict [(''youtube_id'', PStr ''abc''), (''title'', PStr ''first''),
                           (''views'', PInt 10), (''duration'', PInt 100)])]"

definition ex_vd :: "dict list \<Rightarrow> validated_data" where
  "ex_vd tds =
     \<lparr>vd_id = Some 1, vd_name = ''new'', vd_tracks = tds, vd_owner = Some 8,
      vd_active_track_idx = 1, vd_playback_position = 42.5, vd_public = True\<rparr>"

lemmas model_defs =
  update_def update_body_def create_def create_body_def user_get_def playlist_update_def
  set_playback_position_def pos_match_def sync_tracks_def tracks_delete_def sync_track_def
  pop_def pop_default_def delkey_def resolve_youtube_def resolve_file_def
  youtube_get_or_create_def yt_match_def track_create_def atomic_def playlist_tracks_def Let_def

lemmas example_defs =
  ex_playlist_def ex_db_def file_td_def yt_td_def neither_td_def both_td_def ex_vd_def


section \<open>Dictionaries\<close>

lemma map_of_delkey: "map_of (delkey k d) k' = (if k' = k then None else map_of d k')"
  by (induction d) (auto simp: delkey_def)

lemma map_of_setitem: "map_of (setitem d k v) k' = (if k' = k then Some v else map_of d k')"
  by (induction d) auto

lemma delkey_absent: "map_of d k = None \<Longrightarrow> delkey k d = d"
  by (induction d) (auto simp: delkey_def split: if_splits)

lemma snd_pop_default: "snd (pop_default d k x) = delkey k d"
  by (simp add: pop_default_def delkey_absent split: option.splits)

lemma pop_eq: "pop d k = map_option (\<lambda>v. (v, delkey k d)) (map_of d k)"
  by (simp add: pop_def split: option.splits)

section \<open>Transactions\<close>

lemma update_raises_unchanged: "update inst vd s = (Inl e, s') \<Longrightarrow> s' = s"
  by (auto simp: update_def atomic_def Let_def split: sum.splits prod.splits)

lemma create_raises_unchanged: "create vd s = (Inl e, s') \<Longrightarrow> s' = s"
  by (auto simp: create_def atomic_def split: sum.splits prod.splits)

text \<open>
  Claim C1 (atomicity of save). Whenever \<open>update\<close> or \<open>create\<close> raises, whatever
  the step that failed (the resolution of the track descriptor at any index included), the
  database after the call is the database before it: the track list and the
  PlaylistPosition rows are the ones the call found, and so is every other table.
\<close>

theorem save_atomic:
  assumes "update inst vd s = (Inl e, s') \<or> create vd s = (Inl e, s')"
  shows "tracks s' = tracks s \<and> positions s' = positions s \<and> s' = s"
  using assms update_raises_unchanged create_raises_unchanged by blast

text \<open>
  The second descriptor names File 4, which does not exist: the call raises after the
  playlist row, the position row and the first track were written, and leaves nothing of them.
\<close>

theorem save_atomic_witness:
  "update ex_playlist (ex_vd [file_td 3, file_td 4]) ex_db = (Inl (DoesNotExist File), ex_db)
   \<and> tracks ex_db = tracks ex_db \<and> positions ex_db = positions ex_db"
proof -
  have h: "update ex_playlist (ex_vd [file_td 3, file_td 4]) ex_db = (Inl (DoesNotExist File), ex_db)"
    by (simp add: model_defs example_defs)
  from save_atomic [OF disjI1, OF h] h show ?thesis by simp
qed

section \<open>The playback position\<close>

lemma filter_distinct_key:
  "distinct (map f xs) \<Longrightarrow> filter (\<lambda>x. f x = k) xs = [] \<or> (\<exists>x. filter (\<lambda>x. f x = k) xs = [x])"
proof (induction xs)
  case Nil
  then show ?case by simp
next
  case (Cons a xs)
  show ?case
  proof (cases "f a = k")
    case True
    from Cons.prems have "f a \<notin> f ` set xs" by simp
    with True have "\<forall>x\<in>set xs. f x \<noteq> k" by (metis imageI)
    then have "filter (\<lambda>x. f x = k) xs = []" by (simp add: filter_empty_conv)
    with True show ?thesis by simp
  next
    case False
    with Cons show ?thesis by simp
  qed
qed

lemma pos_match_key: "pos_match pl u = (\<lambda>r. (pp_playlist r, pp_user_id r) = (pl, u))"
  by (auto simp: pos_match_def fun_eq_iff)

lemma pos_filter_cases:
  "distinct (position_keys s) \<Longrightarrow>
   filter (pos_match pl u) (positions s) = [] \<or> (\<exists>r. filter (pos_match pl u) (positions s) = [r])"
  unfolding position_keys_def pos_match_key by (rule filter_distinct_key)

lemma set_pp_returns:
  assumes "distinct (position_keys s)"
  shows "\<exists>s'. set_playback_position pl a p u s = Inr s'"
  using pos_filter_cases [OF assms, of "p_id pl" u]
  by (auto simp: set_playback_position_def)

lemma set_pp_keys:
  assumes "set_playback_position pl a p u s = Inr s'"
  shows "position_keys s' = position_keys s \<or> 
         (position_keys s' = position_keys s @ [(p_id pl, u)] \<and> (p_id pl, u) \<notin> set (position_keys s))"
proof (cases "filter (pos_match (p_id pl) u) (positions s)")
  case Nil
  then have "\<forall>r\<in>set (positions s). \<not> pos_match (p_id pl) u r"
    by (simp add: filter_empty_conv)
  then have "(p_id pl, u) \<notin> set (position_keys s)"
    by (auto simp: position_keys_def pos_match_def)
  with Nil assms show ?thesis
    by (auto simp: set_playback_position_def position_keys_def)
next
  case (Cons r rs)
  with assms have s': "s' = s\<lparr>positions :=
                 map (\<lambda>r. if pos_match (p_id pl) u r
                           then r\<lparr>pp_playback_position := p, pp_active_track_idx := a\<rparr>
                           else r) (positions s)\<rparr>"
    by (auto simp: set_playback_position_def split: list.splits)
  have "position_keys s' = position_keys s"
    unfolding s' position_keys_def by (simp add: comp_def if_distrib cong: if_cong)
  then show ?thesis by simp
qed

lemma set_pp_distinct:
  assumes "set_playback_position pl a p u s = Inr s'" "distinct (position_keys s)"
  shows "distinct (position_keys s')"
  using set_pp_keys [OF assms(1)] assms(2) by auto

lemma reachable_distinct: "position_reachable s \<Longrightarrow> distinct (position_keys s)"
  by (induction rule: position_reachable.induct)
     (auto simp: position_keys_def intro: set_pp_distinct [unfolded position_keys_def])

lemma filter_map_if:
  assumes "\<And>r. P r \<Longrightarrow> P (g r)"
  shows "filter P (map (\<lambda>r. if P r then g r else r) xs) = map g (filter P xs)"
  using assms by (induction xs) auto

lemma set_pp_row:
  assumes "set_playback_position pl a p u s = Inr s'"
  shows "filter (pos_match (p_id pl) u) (positions s') =
           [\<lparr>pp_user_id = u, pp_playlist = p_id pl, pp_playback_position = p,
             pp_active_track_idx = a\<rparr>]"
proof (cases "filter (pos_match (p_id pl) u) (positions s)")
  case Nil
  with assms show ?thesis
    by (auto simp: set_playback_position_def pos_match_def)
next
  case (Cons r rs)
  with assms have rs: "rs = []" and s': "s' = s\<lparr>positions :=
                 map (\<lambda>r. if pos_match (p_id pl) u r
                           then r\<lparr>pp_playback_position := p, pp_active_track_idx := a\<rparr>
                           else r) (positions s)\<rparr>"
    by (auto simp: set_playback_position_def split: list.splits)
  have ps: "positions s' = map (\<lambda>r. if pos_match (p_id pl) u r
                           then r\<lparr>pp_playback_position := p, pp_active_track_idx := a\<rparr>
                           else r) (positions s)"
    unfolding s' by simp
  have keep: "\<And>r. pos_match (p_id pl) u r \<Longrightarrow>
      pos_match (p_id pl) u (r\<lparr>pp_playback_position := p, pp_active_track_idx := a\<rparr>)"
    by (simp add: pos_match_def)
  have "filter (pos_match (p_id pl) u) (positions s') =
        map (\<lambda>r. r\<lparr>pp_playback_position := p, pp_active_track_idx := a\<rparr>)
            (filter (pos_match (p_id pl) u) (positions s))"
    unfolding ps by (rule filter_map_if) (rule keep)
  also have "\<dots> = [r\<lparr>pp_playback_position := p, pp_active_track_idx := a\<rparr>]"
    using Cons rs by simp
  also have "pos_match (p_id pl) u r"
    using Cons by (metis filter_eq_ConsD)
  then have "r\<lparr>pp_playback_position := p, pp_active_track_idx := a\<rparr> =
     \<lparr>pp_user_id = u, pp_playlist = p_id pl, pp_playback_position = p, pp_active_track_idx = a\<rparr>"
    by (simp add: pos_match_def)
  finally show ?thesis by simp
qed

text \<open>
  Claim C7 (upsert of the playback position). In every state reached from an empty
  PlaylistPosition table by calls of \<open>set_playback_position\<close>, no two rows have the same
  (playlist, user) pair; and two calls in a row for the same pair both return, after which
  the pair has exactly one row, with the values of the second call.
\<close>

theorem position_upsert:
  assumes "position_reachable s"
  shows "distinct (position_keys s) \<and>
         (\<exists>s1 s2. set_playback_position pl a1 p1 u s = Inr s1 \<and>
                  set_playback_position pl a2 p2 u s1 = Inr s2 \<and>
                  filter (pos_match (p_id pl) u) (positions s2) =
                    [\<lparr>pp_user_id = u, pp_playlist = p_id pl, pp_playback_position = p2,
                      pp_active_track_idx = a2\<rparr>] \<and>
                  distinct (position_keys s2))"
proof -
  have d: "distinct (position_keys s)" using assms by (rule reachable_distinct)
  from set_pp_returns [OF d] obtain s1 where 1: "set_playback_position pl a1 p1 u s = Inr s1"
    by blast
  have d1: "distinct (position_keys s1)" using 1 d by (rule set_pp_distinct)
  from set_pp_returns [OF d1] obtain s2 where 2: "set_playback_position pl a2 p2 u s1 = Inr s2"
    by blast
  have d2: "distinct (position_keys s2)" using 2 d1 by (rule set_pp_distinct)
  from d 1 2 d2 set_pp_row [OF 2] show ?thesis by blast
qed

theorem position_upsert_witness:
  "position_reachable ex_db \<and> distinct (position_keys ex_db) \<and>
   (\<exists>s1 s2. set_playback_position ex_playlist (PInt 1) (PFloat 5) 7 ex_db = Inr s1 \<and>
            set_playback_position ex_playlist (PInt 2) (PFloat 6) 7 s1 = Inr s2 \<and>
            filter (pos_match (p_id ex_playlist) 7) (positions s2) =
              [\<lparr>pp_user_id = 7, pp_playlist = p_id ex_playlist, pp_playback_position = PFloat 6,
                pp_active_track_idx = PInt 2\<rparr>] \<and>
            distinct (position_keys s2))"
proof -
  have "position_reachable (ex_db\<lparr>positions := []\<rparr>)"
    by (rule position_reachable.init) simp
  moreover have "set_playback_position ex_playlist (PInt 0) (PFloat 10) 7 (ex_db\<lparr>positions := []\<rparr>)
      = Inr ex_db"
    by (simp add: set_playback_position_def example_defs)
  ultimately have r: "position_reachable ex_db"
    by (rule position_reachable.step)
  from position_upsert [OF r, of ex_playlist "PInt 1" "PFloat 5" 7 "PInt 2" "PFloat 6"] r
  show ?thesis by simp
qed

text \<open>
  Claim C3 (playback state on the update path). \<open>update\<close> hands \<open>playback_position\<close>
  to \<open>set_playback_position\<close> as \<open>active_track_idx\<close> and the other way round: submitted
  with \<open>active_track_idx = 1\<close> and \<open>playback_position = 42.5\<close>, the row of
  (playlist 1, user 8) holds \<open>active_track_idx = 42.5\<close> and \<open>playback_position = 1\<close>.
\<close>

theorem update_swaps_position:
  "positions (snd (update ex_playlist (ex_vd [file_td 3]) ex_db)) =
     [\<lparr>pp_user_id = 7, pp_playlist = 1, pp_playback_position = PFloat 10,
       pp_active_track_idx = PInt 0\<rparr>,
      \<lparr>pp_user_id = 8, pp_playlist = 1, pp_playback_position = PInt 1,
       pp_active_track_idx = PFloat 42.5\<rparr>]"
  by (simp add: model_defs example_defs)

section \<open>The loop body\<close>

lemma sync_track_unfold:
  "sync_track pl idx td s =
     (case map_of td ''youtube'' of
        None \<Rightarrow> (Inl (KeyError ''youtube''),
                 delkey ''playlist'' (delkey ''id'' (setitem td ''order'' (PInt (int idx)))), s)
      | Some yv \<Rightarrow>
          (case resolve_youtube yv s of
             Inl e \<Rightarrow> (Inl e, delkey ''youtube'' (delkey ''playlist'' (delkey ''id''
                         (setitem td ''order'' (PInt (int idx))))), s)
           | Inr (y, s1) \<Rightarrow>
               (case map_of td ''file'' of
                  None \<Rightarrow> (Inl (KeyError ''file''), delkey ''youtube'' (delkey ''playlist''
                            (delkey ''id'' (setitem td ''order'' (PInt (int idx))))), s1)
                | Some fv \<Rightarrow>
                    (case resolve_file fv s1 of
                       Inl e \<Rightarrow> (Inl e, stripped idx td, s1)
                     | Inr f \<Rightarrow> (Inr (), stripped idx td,
                                 track_create pl f y (stripped idx td) s1)))))"
  by (simp add: sync_track_def Let_def snd_pop_default pop_eq map_of_delkey map_of_setitem
      stripped_def split: option.splits sum.splits prod.splits)

lemma sync_track_ok:
  assumes "sync_track pl idx td s = (Inr u, td', s')"
  obtains yv y s1 fv f where
    "map_of td ''youtube'' = Some yv" "resolve_youtube yv s = Inr (y, s1)"
    "map_of td ''file'' = Some fv" "resolve_file fv s1 = Inr f"
    "td' = stripped idx td" "s' = track_create pl f y (stripped idx td) s1"
  using assms unfolding sync_track_unfold
  by (auto split: option.splits sum.splits prod.splits)

lemma youtube_get_or_create_frame:
  assumes "youtube_get_or_create v a s = Inr (y, s1)"
  shows "s1 = s\<lparr>youtubes := youtubes s1, next_youtube_id := next_youtube_id s1\<rparr>"
  using assms by (auto simp: youtube_get_or_create_def split: list.splits)

lemma resolve_youtube_frame:
  assumes "resolve_youtube yv s = Inr (y, s1)"
  shows "s1 = s\<lparr>youtubes := youtubes s1, next_youtube_id := next_youtube_id s1\<rparr>"
proof (cases "truthy yv")
  case False
  with assms show ?thesis by (simp add: resolve_youtube_def)
next
  case True
  with assms obtain yd v a y' where "youtube_get_or_create v a s = Inr (y', s1)"
    by (auto simp: resolve_youtube_def split: pyval.splits option.splits sum.splits)
  then show ?thesis by (rule youtube_get_or_create_frame)
qed

lemma resolve_youtube_fields:
  assumes "resolve_youtube yv s = Inr (y, s1)"
  shows "users s1 = users s" "files s1 = files s" "playlists s1 = playlists s"
    "tracks s1 = tracks s" "positions s1 = positions s"
    "next_playlist_id s1 = next_playlist_id s" "next_track_id s1 = next_track_id s"
  by (subst resolve_youtube_frame [OF assms], simp)+

lemma resolve_file_files: "files s1 = files s \<Longrightarrow> resolve_file fv s1 = resolve_file fv s"
  by (auto simp: resolve_file_def split: pyval.splits option.splits)

lemma sync_track_frame:
  assumes "sync_track pl idx td s = (r, td', s')"
  shows "users s' = users s \<and> files s' = files s \<and> playlists s' = playlists s \<and>
         positions s' = positions s \<and> next_playlist_id s' = next_playlist_id s"
  using assms unfolding sync_track_unfold
  by (auto simp: track_create_def resolve_youtube_fields
           split: option.splits sum.splits prod.splits)

lemma sync_loop_frame:
  "sync_loop pl idx tds s = (r, tds', s') \<Longrightarrow>
   users s' = users s \<and> files s' = files s \<and> playlists s' = playlists s \<and>
   positions s' = positions s \<and> next_playlist_id s' = next_playlist_id s"
proof (induction tds arbitrary: idx s r tds' s')
  case Nil
  then show ?case by simp
next
  case (Cons td rest)
  obtain r1 td1 s1 where st: "sync_track pl idx td s = (r1, td1, s1)"
    by (cases "sync_track pl idx td s") auto
  note f1 = sync_track_frame [OF st]
  show ?case
  proof (cases r1)
    case (Inl e)
    with Cons.prems st have "s' = s1" by simp
    with f1 show ?thesis by simp
  next
    case (Inr u)
    obtain r2 rest2 s2 where sl: "sync_loop pl (Suc idx) rest s1 = (r2, rest2, s2)"
      by (cases "sync_loop pl (Suc idx) rest s1") auto
    with Cons.prems st Inr have "s' = s2" by simp
    with Cons.IH [OF sl] f1 show ?thesis by simp
  qed
qed

lemma sync_tracks_frame:
  assumes "sync_tracks pl tds s = (r, tds', s')"
  shows "users s' = users s \<and> files s' = files s \<and> playlists s' = playlists s \<and>
         positions s' = positions s \<and> next_playlist_id s' = next_playlist_id s"
proof -
  obtain r1 tds1 s1 where sl: "sync_loop pl 0 tds (tracks_delete pl s) = (r1, tds1, s1)"
    by (cases "sync_loop pl 0 tds (tracks_delete pl s)") auto
  with assms have s': "s' = atomic s r1 s1" by (auto simp: sync_tracks_def)
  from sync_loop_frame [OF sl] have "users s1 = users s \<and> files s1 = files s \<and>
     playlists s1 = playlists s \<and> positions s1 = positions s \<and>
     next_playlist_id s1 = next_playlist_id s"
    by (simp add: tracks_delete_def)
  with s' show ?thesis by (cases r1) (simp_all add: atomic_def)
qed

lemma set_pp_frame:
  assumes "set_playback_position pl a p u s = Inr s'"
  shows "s' = s\<lparr>positions := positions s'\<rparr>"
  using assms by (auto simp: set_playback_position_def split: list.splits)

lemma set_pp_fields:
  assumes "set_playback_position pl a p u s = Inr s'"
  shows "users s' = users s" "files s' = files s" "playlists s' = playlists s"
    "tracks s' = tracks s" "youtubes s' = youtubes s"
    "next_playlist_id s' = next_playlist_id s" "next_track_id s' = next_track_id s"
    "next_youtube_id s' = next_youtube_id s"
  by (subst set_pp_frame [OF assms], simp)+

section \<open>The playlist row\<close>

lemma update_body_playlists:
  assumes "update_body i user vd s = (r, s')"
  shows "playlists s' = playlists (playlist_update i (vd_name vd) (vd_public vd) s)"
  using assms
  by (auto simp: update_body_def Let_def set_pp_fields
           split: sum.splits prod.splits dest!: sync_tracks_frame)

lemma playlist_update_keeps:
  "map p_owner (playlists (playlist_update i n b s)) = map p_owner (playlists s) \<and>
   map p_id (playlists (playlist_update i n b s)) = map p_id (playlists s)"
  by (simp add: playlist_update_def comp_def if_distrib cong: if_cong)

text \<open>
  Claim C9 (owner frame on update). Whatever \<open>update\<close> returns, every playlist row keeps
  its id and its owner, whatever owner the validated data carry; when \<open>update\<close> succeeds,
  the playlist table differs from the one before only in the \<^verbatim>\<open>name\<close> and \<^verbatim>\<open>public\<close>
  columns of the rows with the submitted id.
\<close>

theorem update_owner_frame:
  assumes "update inst vd s = (r, s')"
  shows "map p_owner (playlists s') = map p_owner (playlists s) \<and>
         map p_id (playlists s') = map p_id (playlists s) \<and>
         (\<forall>pl. r = Inr pl \<longrightarrow>
            playlists s' =
              map (\<lambda>p. if p_id p = (case vd_id vd of None \<Rightarrow> - 1 | Some j \<Rightarrow> j)
                        then p\<lparr>p_name := vd_name vd, p_public := vd_public vd\<rparr> else p)
                  (playlists s))"
proof (cases "user_get (vd_owner vd) s")
  case (Inl e)
  with assms show ?thesis by (auto simp: update_def Let_def)
next
  case (Inr user)
  define i where "i = (case vd_id vd of None \<Rightarrow> - 1 | Some j \<Rightarrow> j)"
  obtain r1 s1 where ub: "update_body i user vd s = (r1, s1)"
    by (cases "update_body i user vd s") auto
  with assms Inr have rs: "r = r1" "s' = atomic s r1 s1"
    by (auto simp: update_def Let_def i_def)
  note p1 = update_body_playlists [OF ub]
  show ?thesis
  proof (cases r1)
    case (Inl e)
    with rs show ?thesis by (simp add: atomic_def)
  next
    case (Inr pl)
    with rs have "s' = s1" by (simp add: atomic_def)
    with p1 playlist_update_keeps [of i "vd_name vd" "vd_public vd" s] show ?thesis
      by (simp add: playlist_update_def i_def)
  qed
qed

text \<open>
  The validated data name user 8 as owner; the playlist stays with user 7.
\<close>

theorem update_owner_frame_witness:
  "map p_owner (playlists (snd (update ex_playlist (ex_vd [file_td 3]) ex_db))) = [Some 7] \<and>
   playlists (snd (update ex_playlist (ex_vd [file_td 3]) ex_db)) =
     [\<lparr>p_id = 1, p_name = ''new'', p_owner = Some 7, p_public = True\<rparr>]"
proof -
  have h: "update ex_playlist (ex_vd [file_td 3]) ex_db =
     (Inr \<lparr>p_id = 1, p_name = ''new'', p_owner = Some 7, p_public = True\<rparr>,
      snd (update ex_playlist (ex_vd [file_td 3]) ex_db))"
    by (simp add: model_defs example_defs)
  from update_owner_frame [OF h] show ?thesis
    by (simp add: example_defs)
qed

section \<open>Descriptors with neither or both sources\<close>

text \<open>
  Claim C5 (malformed descriptors), as the code has it. The loop body has no check of the
  two sources against each other and raises no error of its own for them. A descriptor
  whose \<^verbatim>\<open>youtube\<close> and \<^verbatim>\<open>file\<close> values are both empty is accepted, and a track
  row with neither a File nor a Youtube entry is created; a descriptor in which both are
  present and both resolve is accepted too, and the track row references both.
\<close>

theorem malformed_accepted:
  assumes "map_of td ''youtube'' = Some yv" "map_of td ''file'' = Some fv"
  shows "(\<not> truthy yv \<and> \<not> truthy fv \<longrightarrow>
            sync_track pl idx td s =
              (Inr (), stripped idx td, track_create pl None None (stripped idx td) s)) \<and>
         (\<forall>y s1 f. resolve_youtube yv s = Inr (Some y, s1) \<and> resolve_file fv s1 = Inr (Some f) \<longrightarrow>
            sync_track pl idx td s =
              (Inr (), stripped idx td, track_create pl (Some f) (Some y) (stripped idx td) s1))"
  using assms unfolding sync_track_unfold
  by (auto simp: resolve_youtube_def resolve_file_def)

text \<open>
  The two cases on the example database: File 3 exists, and the Youtube entry of
  \<^verbatim>\<open>abc\<close> is created with id 1.
\<close>

theorem malformed_accepted_witness:
  "tracks (snd (snd (sync_track ex_playlist 0 neither_td ex_db))) =
     tracks ex_db @ [\<lparr>t_id = 2, t_playlist = 1, t_file = None, t_youtube = None,
                      t_fields = [(''order'', PInt 0), (''type'', PInt 0)]\<rparr>] \<and>
   tracks (snd (snd (sync_track ex_playlist 0 both_td ex_db))) =
     tracks ex_db @ [\<lparr>t_id = 2, t_playlist = 1, t_file = Some 3, t_youtube = Some 1,
                      t_fields = [(''order'', PInt 0), (''type'', PInt 0)]\<rparr>]"
proof -
  have n: "map_of neither_td ''youtube'' = Some PNone" "map_of neither_td ''file'' = Some PNone"
    by (simp_all add: neither_td_def)
  have b: "map_of both_td ''youtube'' =
             Some (PDict [(''youtube_id'', PStr ''abc''), (''title'', PStr ''first''),
                          (''views'', PInt 10), (''duration'', PInt 100)])"
          "map_of both_td ''file'' = Some (PDict [(''id'', PInt 3), (''filename'', PStr ''a.mp3'')])"
    by (simp_all add: both_td_def)
  define s1 where "s1 = ex_db\<lparr>youtubes :=
      [\<lparr>y_id = 1, y_video_id = PStr ''abc'',
        y_attrs = [(''title'', PStr ''first''), (''views'', PInt 10), (''duration'', PInt 100)]\<rparr>],
      next_youtube_id := 2\<rparr>"
  have ry: "resolve_youtube (PDict [(''youtube_id'', PStr ''abc''), (''title'', PStr ''first''),
                          (''views'', PInt 10), (''duration'', PInt 100)]) ex_db = Inr (Some 1, s1)"
    by (simp add: resolve_youtube_def youtube_get_or_create_def yt_match_def pop_def delkey_def
        ex_db_def s1_def)
  have rf: "resolve_file (PDict [(''id'', PInt 3), (''filename'', PStr ''a.mp3'')]) s1 = Inr (Some 3)"
    by (simp add: resolve_file_def s1_def ex_db_def)
  from malformed_accepted [OF n, where pl = ex_playlist and idx = 0 and s = ex_db]
  have 1: "sync_track ex_playlist 0 neither_td ex_db =
      (Inr (), stripped 0 neither_td, track_create ex_playlist None None (stripped 0 neither_td) ex_db)"
    by simp
  from malformed_accepted [OF b, where pl = ex_playlist and idx = 0 and s = ex_db] ry rf
  have 2: "sync_track ex_playlist 0 both_td ex_db =
      (Inr (), stripped 0 both_td, track_create ex_playlist (Some 3) (Some 1) (stripped 0 both_td) s1)"
    by blast
  show ?thesis
    unfolding 1 2
    by (simp add: track_create_def stripped_def delkey_def s1_def example_defs)
qed

text \<open>
  Claim C5 as stated fails: an update with one descriptor naming neither source and one
  naming both succeeds, and the playlist afterwards holds a track with no source and a
  track with two.
\<close>

theorem malformed_counterexample:
  "fst (update ex_playlist (ex_vd [neither_td, both_td]) ex_db) =
     Inr \<lparr>p_id = 1, p_name = ''new'', p_owner = Some 7, p_public = True\<rparr> \<and>
   map (\<lambda>t. (t_file t, t_youtube t))
       (playlist_tracks ex_playlist (snd (update ex_playlist (ex_vd [neither_td, both_td]) ex_db))) =
     [(None, None), (Some 3, Some 1)]"
  by (simp add: model_defs example_defs)

section \<open>A File that does not exist\<close>

lemma resolve_file_missing:
  assumes "map_of fd ''id'' = Some (PInt i)" "i \<notin> set (files s)"
  shows "resolve_file (PDict fd) s = Inl (DoesNotExist File)"
proof -
  from assms(1) have "fd \<noteq> []" by auto
  moreover from assms(2) have "filter (\<lambda>f. f = i) (files s) = []"
    by (auto simp: filter_empty_conv)
  ultimately show ?thesis using assms(1) by (simp add: resolve_file_def)
qed

lemma sync_track_missing_file:
  assumes "map_of td ''file'' = Some (PDict fd)" "map_of fd ''id'' = Some (PInt i)"
    "i \<notin> set (files s)"
  shows "\<exists>e. fst (sync_track pl idx td s) = Inl e"
proof (cases "map_of td ''youtube''")
  case None
  then show ?thesis by (simp add: sync_track_unfold)
next
  case (Some yv)
  show ?thesis
  proof (cases "resolve_youtube yv s")
    case (Inl e)
    with Some show ?thesis by (simp add: sync_track_unfold)
  next
    case (Inr ys)
    obtain y s1 where ys: "ys = (y, s1)" by (cases ys)
    from Inr ys have "files s1 = files s" by (simp add: resolve_youtube_fields)
    with assms have "resolve_file (PDict fd) s1 = Inl (DoesNotExist File)"
      by (simp add: resolve_file_missing)
    with Some Inr ys assms(1) show ?thesis by (simp add: sync_track_unfold)
  qed
qed

lemma sync_loop_missing_file:
  assumes "td \<in> set tds" "map_of td ''file'' = Some (PDict fd)"
    "map_of fd ''id'' = Some (PInt i)" "i \<notin> set (files s)"
  shows "\<exists>e. fst (sync_loop pl idx tds s) = Inl e"
  using assms(1,4)
proof (induction tds arbitrary: idx s)
  case Nil
  then show ?case by simp
next
  case (Cons a rest)
  obtain r1 a1 s1 where st: "sync_track pl idx a s = (r1, a1, s1)"
    by (cases "sync_track pl idx a s") auto
  show ?case
  proof (cases r1)
    case (Inl e)
    with st show ?thesis by simp
  next
    case (Inr u)
    have "a \<noteq> td"
    proof
      assume "a = td"
      with sync_track_missing_file [OF assms(2,3) Cons.prems(2), of pl idx] st Inr
      show False by simp
    qed
    with Cons.prems have in_rest: "td \<in> set rest" by simp
    from sync_track_frame [OF st] Cons.prems have "i \<notin> set (files s1)" by simp
    from Cons.IH [OF in_rest this, of "Suc idx"] obtain e where
      "fst (sync_loop pl (Suc idx) rest s1) = Inl e" by blast
    with st Inr show ?thesis by (auto split: prod.splits)
  qed
qed

lemma sync_tracks_missing_file:
  assumes "td \<in> set tds" "map_of td ''file'' = Some (PDict fd)"
    "map_of fd ''id'' = Some (PInt i)" "i \<notin> set (files s)"
  shows "\<exists>e. fst (sync_tracks pl tds s) = Inl e"
proof -
  have "i \<notin> set (files (tracks_delete pl s))" using assms(4) by (simp add: tracks_delete_def)
  from sync_loop_missing_file [OF assms(1-3) this, of pl 0]
  show ?thesis by (auto simp: sync_tracks_def split: prod.splits)
qed

lemma update_missing_file:
  assumes "td \<in> set (vd_tracks vd)" "map_of td ''file'' = Some (PDict fd)"
    "map_of fd ''id'' = Some (PInt i)" "i \<notin> set (files s)"
  shows "\<exists>e. update inst vd s = (Inl e, s)"
proof -
  have body: "\<exists>e. fst (update_body j user vd s) = Inl e" for j user
  proof -
    define s1 where "s1 = playlist_update j (vd_name vd) (vd_public vd) s"
    show ?thesis
    proof (cases "objects_get Playlist (filter (\<lambda>p. p_id p = j) (playlists s1))")
      case (Inl e)
      then show ?thesis by (simp add: update_body_def Let_def s1_def)
    next
      case (Inr pl)
      show ?thesis
      proof (cases "set_playback_position pl (PFloat (vd_playback_position vd))
                      (PInt (vd_active_track_idx vd)) user s1")
        case (Inl e)
        with Inr show ?thesis by (simp add: update_body_def Let_def s1_def)
      next
        case (Inr s2)
        then have "files s2 = files s" by (simp add: set_pp_fields s1_def playlist_update_def)
        with assms(4) have "i \<notin> set (files s2)" by simp
        from sync_tracks_missing_file [OF assms(1-3) this, of pl] obtain e where
          "fst (sync_tracks pl (vd_tracks vd) s2) = Inl e" by blast
        with Inr \<open>objects_get Playlist (filter (\<lambda>p. p_id p = j) (playlists s1)) = Inr pl\<close>
        show ?thesis
          by (auto simp: update_body_def Let_def s1_def split: prod.splits sum.splits)
      qed
    qed
  qed
  have "\<exists>e. fst (update inst vd s) = Inl e"
  proof (cases "user_get (vd_owner vd) s")
    case (Inl e)
    then show ?thesis by (simp add: update_def Let_def)
  next
    case (Inr user)
    with body [of "case vd_id vd of None \<Rightarrow> - 1 | Some j \<Rightarrow> j" user] show ?thesis
      by (auto simp: update_def Let_def split: prod.splits)
  qed
  then obtain e where e: "fst (update inst vd s) = Inl e" by blast
  then have "update inst vd s = (Inl e, snd (update inst vd s))" by (metis prod.collapse)
  with update_raises_unchanged [OF this] show ?thesis by auto
qed

lemma create_missing_file:
  assumes "td \<in> set (vd_tracks vd)" "map_of td ''file'' = Some (PDict fd)"
    "map_of fd ''id'' = Some (PInt i)" "i \<notin> set (files s)"
  shows "\<exists>e. create vd s = (Inl e, s)"
proof -
  have body: "\<exists>e. fst (create_body user vd s) = Inl e" for user
  proof -
    define pl where "pl = \<lparr>p_id = next_playlist_id s, p_name = vd_name vd,
                      p_owner = Some user, p_public = vd_public vd\<rparr>"
    define s1 where "s1 = s\<lparr>playlists := playlists s @ [pl],
                 next_playlist_id := next_playlist_id s + 1\<rparr>"
    show ?thesis
    proof (cases "set_playback_position pl (PInt (vd_active_track_idx vd))
                    (PFloat (vd_playback_position vd)) user s1")
      case (Inl e)
      then show ?thesis by (simp add: create_body_def Let_def s1_def pl_def)
    next
      case (Inr s2)
      then have "files s2 = files s" by (simp add: set_pp_fields s1_def)
      with assms(4) have "i \<notin> set (files s2)" by simp
      from sync_tracks_missing_file [OF assms(1-3) this, of pl] obtain e where
        "fst (sync_tracks pl (vd_tracks vd) s2) = Inl e" by blast
      with Inr show ?thesis
        by (auto simp: create_body_def Let_def s1_def pl_def split: prod.splits sum.splits)
    qed
  qed
  have "\<exists>e. fst (create vd s) = Inl e"
  proof (cases "user_get (vd_owner vd) s")
    case (Inl e)
    then show ?thesis by (simp add: create_def)
  next
    case (Inr user)
    with body [of user] show ?thesis
      by (auto simp: create_def split: prod.splits)
  qed
  then obtain e where e: "fst (create vd s) = Inl e" by blast
  then have "create vd s = (Inl e, snd (create vd s))" by (metis prod.collapse)
  with create_raises_unchanged [OF this] show ?thesis by auto
qed

text \<open>
  Claim C6 (a File that does not exist). When a descriptor of the submitted list names, by
  an integer id, a File that is not in the File table, the lookup of that File raises
  \<open>File.DoesNotExist\<close>, and both \<open>update\<close> and \<open>create\<close> raise and leave the database as
  it was: no File row is created, and nothing else of the call remains.
\<close>

theorem file_not_found:
  assumes "td \<in> set (vd_tracks vd)" "map_of td ''file'' = Some (PDict fd)"
    "map_of fd ''id'' = Some (PInt i)" "i \<notin> set (files s)"
  shows "resolve_file (PDict fd) s = Inl (DoesNotExist File) \<and>
         (\<exists>e. update inst vd s = (Inl e, s)) \<and>
         (\<exists>e. create vd s = (Inl e, s))"
  using resolve_file_missing [OF assms(3,4)] update_missing_file [OF assms]
    create_missing_file [OF assms]
  by blast

text \<open>
  File 4 does not exist. The first descriptor creates a Youtube entry before the second one
  fails; the entry is gone with the rest.
\<close>

theorem file_not_found_witness:
  "resolve_file (PDict [(''id'', PInt 4), (''filename'', PStr ''a.mp3'')]) ex_db =
     Inl (DoesNotExist File) \<and>
   update ex_playlist (ex_vd [yt_td ''abc'' ''first'', file_td 4]) ex_db =
     (Inl (DoesNotExist File), ex_db) \<and>
   create (ex_vd [yt_td ''abc'' ''first'', file_td 4]) ex_db = (Inl (DoesNotExist File), ex_db)"
proof -
  have 1: "file_td 4 \<in> set (vd_tracks (ex_vd [yt_td ''abc'' ''first'', file_td 4]))"
    by (simp add: ex_vd_def)
  have 2: "map_of (file_td 4) ''file'' = Some (PDict [(''id'', PInt 4), (''filename'', PStr ''a.mp3'')])"
    by (simp add: file_td_def)
  have 3: "map_of [(''id'', PInt 4), (''filename'', PStr ''a.mp3'')] ''id'' = Some (PInt 4)"
    by simp
  have 4: "4 \<notin> set (files ex_db)" by (simp add: ex_db_def)
  have u: "fst (update ex_playlist (ex_vd [yt_td ''abc'' ''first'', file_td 4]) ex_db) =
     Inl (DoesNotExist File)"
    by (simp add: model_defs example_defs)
  have c: "fst (create (ex_vd [yt_td ''abc'' ''first'', file_td 4]) ex_db) = Inl (DoesNotExist File)"
    by (simp add: model_defs example_defs)
  from file_not_found [OF 1 2 3 4, of ex_playlist] u c show ?thesis by auto
qed

section \<open>A completed pass of the loop\<close>

lemma stripped_keys:
  "map_of (stripped idx td) ''id'' = None" "map_of (stripped idx td) ''playlist'' = None"
  "map_of (stripped idx td) ''youtube'' = None" "map_of (stripped idx td) ''file'' = None"
  "map_of (stripped idx td) ''order'' = Some (PInt (int idx))"
  by (simp_all add: stripped_def map_of_delkey map_of_setitem)

lemma sync_track_tracks:
  assumes "sync_track pl idx td s = (Inr u, td', s')"
  shows "td' = stripped idx td \<and>
         (\<exists>t. tracks s' = tracks s @ [t] \<and> t_fields t = stripped idx td \<and>
              t_playlist t = p_id pl \<and> t_id t = next_track_id s \<and>
              (\<exists>fv. map_of td ''file'' = Some fv \<and> resolve_file fv s = Inr (t_file t))) \<and>
         next_track_id s' = next_track_id s + 1"
proof -
  from assms obtain yv y s1 fv f where
    h: "resolve_youtube yv s = Inr (y, s1)"
    "map_of td ''file'' = Some fv" "resolve_file fv s1 = Inr f"
    "td' = stripped idx td" "s' = track_create pl f y (stripped idx td) s1"
    by (rule sync_track_ok)
  from h(1) have "files s1 = files s" "tracks s1 = tracks s" "next_track_id s1 = next_track_id s"
    by (simp_all add: resolve_youtube_fields)
  with h resolve_file_files [of s1 s fv] show ?thesis
    by (simp add: track_create_def)
qed

lemma sync_loop_ok:
  "sync_loop pl idx tds s = (Inr (), tds', s') \<Longrightarrow>
   tds' = map (\<lambda>(i, td). stripped i td) (enumerate idx tds) \<and>
   (\<exists>ns. tracks s' = tracks s @ ns \<and> map t_fields ns = tds' \<and>
         (\<forall>t\<in>set ns. t_playlist t = p_id pl) \<and>
         map t_id ns = map (\<lambda>k. next_track_id s + int k) [0..<length tds] \<and>
         list_all2 (\<lambda>t td. \<exists>fv. map_of td ''file'' = Some fv \<and> resolve_file fv s = Inr (t_file t))
           ns tds) \<and>
   next_track_id s' = next_track_id s + int (length tds)"
proof (induction tds arbitrary: idx s tds' s')
  case Nil
  then show ?case by simp
next
  case (Cons td rest)
  obtain r1 td1 s1 where st: "sync_track pl idx td s = (r1, td1, s1)"
    by (cases "sync_track pl idx td s") auto
  obtain r2 rest2 s2 where sl: "sync_loop pl (Suc idx) rest s1 = (r2, rest2, s2)"
    by (cases "sync_loop pl (Suc idx) rest s1") auto
  from Cons.prems st sl have r1: "r1 = Inr ()" and r2: "r2 = Inr ()"
    and eq: "tds' = td1 # rest2" "s' = s2"
    by (auto split: sum.splits)
  from sync_track_tracks [OF st [unfolded r1]] obtain t where
    t: "td1 = stripped idx td" "tracks s1 = tracks s @ [t]" "t_fields t = stripped idx td"
       "t_playlist t = p_id pl" "t_id t = next_track_id s"
       "\<exists>fv. map_of td ''file'' = Some fv \<and> resolve_file fv s = Inr (t_file t)"
       "next_track_id s1 = next_track_id s + 1"
    by blast
  from Cons.IH [OF sl [unfolded r2]] obtain ns where
    ns: "rest2 = map (\<lambda>(i, td). stripped i td) (enumerate (Suc idx) rest)"
        "tracks s2 = tracks s1 @ ns" "map t_fields ns = rest2"
        "\<forall>t\<in>set ns. t_playlist t = p_id pl"
        "map t_id ns = map (\<lambda>k. next_track_id s1 + int k) [0..<length rest]"
        "list_all2 (\<lambda>t td. \<exists>fv. map_of td ''file'' = Some fv \<and> resolve_file fv s1 = Inr (t_file t))
           ns rest"
        "next_track_id s2 = next_track_id s1 + int (length rest)"
    by blast
  have files: "files s1 = files s" using sync_track_frame [OF st] by simp
  have la: "list_all2 (\<lambda>t td. \<exists>fv. map_of td ''file'' = Some fv \<and> resolve_file fv s = Inr (t_file t))
           ns rest"
    using ns(6) by (simp add: resolve_file_files [OF files])
  have ids: "map t_id (t # ns) = map (\<lambda>k. next_track_id s + int k) [0..<length (td # rest)]"
  proof -
    have "[0..<length (td # rest)] = 0 # map Suc [0..<length rest]"
      by (simp add: upt_conv_Cons map_Suc_upt del: upt_Suc)
    then show ?thesis using t(5,7) ns(5) by (simp add: comp_def add.assoc add.commute)
  qed
  have "tracks s' = tracks s @ (t # ns)" using eq t ns by simp
  moreover have "map t_fields (t # ns) = tds'" using eq t ns by simp
  moreover have "\<forall>x\<in>set (t # ns). t_playlist x = p_id pl" using t ns by simp
  moreover have "list_all2 (\<lambda>t td. \<exists>fv. map_of td ''file'' = Some fv \<and>
      resolve_file fv s = Inr (t_file t)) (t # ns) (td # rest)"
    using t(6) la by simp
  moreover have "tds' = map (\<lambda>(i, td). stripped i td) (enumerate idx (td # rest))"
    using eq t ns by simp
  moreover have "next_track_id s' = next_track_id s + int (length (td # rest))"
    using eq t ns by simp
  ultimately show ?case using ids by blast
qed

section \<open>The descriptors after a call\<close>

lemma sync_track_no_youtube:
  assumes "sync_track pl idx td s = (r, td', s')"
  shows "map_of td' ''youtube'' = None"
  using assms unfolding sync_track_unfold
  by (auto simp: map_of_delkey map_of_setitem stripped_keys
           split: option.splits sum.splits prod.splits)

lemma sync_track_KeyError:
  "map_of td ''youtube'' = None \<Longrightarrow> fst (sync_track pl idx td s) = Inl (KeyError ''youtube'')"
  by (simp add: sync_track_unfold)

lemma sync_loop_head:
  assumes "sync_loop pl idx (td # rest) s = (r, tds', s')"
  shows "\<exists>td' rest'. tds' = td' # rest' \<and> map_of td' ''youtube'' = None"
proof -
  obtain r1 td1 s1 where st: "sync_track pl idx td s = (r1, td1, s1)"
    by (cases "sync_track pl idx td s") auto
  from sync_track_no_youtube [OF st] assms st show ?thesis
    by (cases r1) (auto split: prod.splits)
qed

lemma sync_tracks_again:
  assumes "sync_tracks pl tds s = (r, tds', s')" "tds \<noteq> []"
  shows "fst (sync_tracks pl2 tds' s2) = Inl (KeyError ''youtube'')"
proof -
  from assms(2) obtain td rest where tds: "tds = td # rest" by (cases tds) auto
  obtain r1 tds1 s1 where sl: "sync_loop pl 0 (td # rest) (tracks_delete pl s) = (r1, tds1, s1)"
    by (cases "sync_loop pl 0 (td # rest) (tracks_delete pl s)") auto
  with assms(1) tds have "tds' = tds1" by (auto simp: sync_tracks_def)
  with sync_loop_head [OF sl] obtain td' rest' where
    h: "tds' = td' # rest'" "map_of td' ''youtube'' = None" by blast
  from sync_track_KeyError [OF h(2), of pl2 0 "tracks_delete pl2 s2"]
  show ?thesis unfolding h(1)
    by (auto simp: sync_tracks_def split: prod.splits sum.splits)
qed

text \<open>
  Claim C10 (the descriptors are consumed), as the code has it. \<open>sync_tracks\<close> changes the
  caller's descriptor dictionaries in place, one after the other as the loop reaches them.
  After a call that returns, every descriptor has lost the keys
  \<^verbatim>\<open>id\<close>, \<^verbatim>\<open>playlist\<close>, \<^verbatim>\<open>youtube\<close> and \<^verbatim>\<open>file\<close>, and its \<^verbatim>\<open>order\<close> is its
  index. After any call on a list that is not empty, whether it returned or raised, a
  second call with the same descriptor objects raises \<open>KeyError\<close> for \<^verbatim>\<open>youtube\<close>,
  on any playlist and database.
\<close>

theorem sync_tracks_consumes_descriptors:
  assumes "sync_tracks pl tds s = (r, tds', s')"
  shows "(r = Inr () \<longrightarrow>
            tds' = map (\<lambda>(i, td). stripped i td) (enumerate 0 tds) \<and>
            (\<forall>d\<in>set tds'. map_of d ''id'' = None \<and> map_of d ''playlist'' = None \<and>
                          map_of d ''youtube'' = None \<and> map_of d ''file'' = None) \<and>
            (\<forall>i<length tds'. map_of (tds' ! i) ''order'' = Some (PInt (int i)))) \<and>
         (tds \<noteq> [] \<longrightarrow> fst (sync_tracks pl2 tds' s2) = Inl (KeyError ''youtube''))"
proof (intro conjI impI)
  assume ok: "r = Inr ()"
  obtain r1 tds1 s1 where sl: "sync_loop pl 0 tds (tracks_delete pl s) = (r1, tds1, s1)"
    by (cases "sync_loop pl 0 tds (tracks_delete pl s)") auto
  with assms ok have "r1 = Inr ()" "tds1 = tds'" by (auto simp: sync_tracks_def)
  with sync_loop_ok [of pl 0 tds "tracks_delete pl s" tds' s1] sl
  show eq: "tds' = map (\<lambda>(i, td). stripped i td) (enumerate 0 tds)" by simp
  show "\<forall>d\<in>set tds'. map_of d ''id'' = None \<and> map_of d ''playlist'' = None \<and>
                          map_of d ''youtube'' = None \<and> map_of d ''file'' = None"
    unfolding eq by (auto simp: stripped_keys)
  show "\<forall>i<length tds'. map_of (tds' ! i) ''order'' = Some (PInt (int i))"
    unfolding eq by (simp add: nth_enumerate_eq stripped_keys)
next
  assume "tds \<noteq> []"
  with assms show "fst (sync_tracks pl2 tds' s2) = Inl (KeyError ''youtube'')"
    by (rule sync_tracks_again)
qed

text \<open>
  A call with a file descriptor and an external descriptor leaves two dictionaries with
  \<^verbatim>\<open>order\<close> and \<^verbatim>\<open>type\<close> only; the second call on them raises.
\<close>

theorem sync_tracks_consumes_descriptors_witness:
  "sync_tracks ex_playlist [file_td 3, yt_td ''abc'' ''first''] ex_db =
     (Inr (), [[(''order'', PInt 0), (''type'', PInt 0)], [(''order'', PInt 1), (''type'', PInt 1)]],
      snd (snd (sync_tracks ex_playlist [file_td 3, yt_td ''abc'' ''first''] ex_db))) \<and>
   fst (sync_tracks ex_playlist
          [[(''order'', PInt 0), (''type'', PInt 0)], [(''order'', PInt 1), (''type'', PInt 1)]]
          ex_db) = Inl (KeyError ''youtube'')"
proof -
  have h: "sync_tracks ex_playlist [file_td 3, yt_td ''abc'' ''first''] ex_db =
     (Inr (), [[(''order'', PInt 0), (''type'', PInt 0)], [(''order'', PInt 1), (''type'', PInt 1)]],
      snd (snd (sync_tracks ex_playlist [file_td 3, yt_td ''abc'' ''first''] ex_db)))"
    by (simp add: model_defs example_defs)
  note w = sync_tracks_consumes_descriptors [OF h, of ex_playlist ex_db]
  have "fst (sync_tracks ex_playlist
          [[(''order'', PInt 0), (''type'', PInt 0)], [(''order'', PInt 1), (''type'', PInt 1)]]
          ex_db) = Inl (KeyError ''youtube'')"
    by (rule conjunct2 [OF w, THEN mp]) simp
  with h show ?thesis by (intro conjI)
qed

text \<open>
  Claim C10 as stated, for every call and each descriptor, fails twice. A call that raises
  at the first descriptor (File 4 does not exist) leaves the second descriptor as it was,
  with \<^verbatim>\<open>youtube\<close>, \<^verbatim>\<open>file\<close> and its \<^verbatim>\<open>order\<close> of 9; and on the empty list the
  second call returns as the first did.
\<close>

theorem sync_tracks_consumes_descriptors_counterexample:
  "sync_tracks ex_playlist [file_td 4, yt_td ''abc'' ''first''] ex_db =
     (Inl (DoesNotExist File),
      [[(''order'', PInt 0), (''type'', PInt 0)],
       [(''order'', PInt 9), (''type'', PInt 1), (''file'', PNone),
        (''youtube'', PDict [(''youtube_id'', PStr ''abc''), (''title'', PStr ''first''),
                             (''views'', PInt 10), (''duration'', PInt 100)])]],
      ex_db) \<and>
   fst (sync_tracks ex_playlist [] ex_db) = Inr () \<and>
   fst (snd (sync_tracks ex_playlist [] ex_db)) = [] \<and>
   fst (sync_tracks ex_playlist (fst (snd (sync_tracks ex_playlist [] ex_db))) ex_db) = Inr ()"
  by (simp add: model_defs example_defs)

section \<open>A save that returns\<close>

lemma sync_tracks_ok:
  assumes "sync_tracks pl tds s = (Inr u, tds', s')"
  shows "sync_loop pl 0 tds (tracks_delete pl s) = (Inr (), tds', s')"
  using assms by (auto simp: sync_tracks_def atomic_def split: prod.splits)

lemma update_ok:
  assumes "update inst vd s = (Inr pl, s')"
  obtains user s1 s2 tds' where
    "user_get (vd_owner vd) s = Inr user"
    "s1 = playlist_update (case vd_id vd of None \<Rightarrow> - 1 | Some j \<Rightarrow> j) (vd_name vd) (vd_public vd) s"
    "objects_get Playlist
       (filter (\<lambda>p. p_id p = (case vd_id vd of None \<Rightarrow> - 1 | Some j \<Rightarrow> j)) (playlists s1)) = Inr pl"
    "set_playback_position pl (PFloat (vd_playback_position vd)) (PInt (vd_active_track_idx vd))
       user s1 = Inr s2"
    "sync_loop pl 0 (vd_tracks vd) (tracks_delete pl s2) = (Inr (), tds', s')"
proof -
  define i where "i = (case vd_id vd of None \<Rightarrow> - 1 | Some j \<Rightarrow> j)"
  from assms obtain user where u: "user_get (vd_owner vd) s = Inr user"
    by (cases "user_get (vd_owner vd) s") (auto simp: update_def Let_def)
  with assms have ub: "update_body i user vd s = (Inr pl, s')"
    by (auto simp: update_def Let_def i_def atomic_def split: prod.splits)
  define s1 where "s1 = playlist_update i (vd_name vd) (vd_public vd) s"
  from ub obtain pl0 where g: "objects_get Playlist (filter (\<lambda>p. p_id p = i) (playlists s1)) = Inr pl0"
    by (cases "objects_get Playlist (filter (\<lambda>p. p_id p = i) (playlists s1))")
       (auto simp: update_body_def Let_def s1_def)
  from ub g obtain s2 where p: "set_playback_position pl0 (PFloat (vd_playback_position vd))
      (PInt (vd_active_track_idx vd)) user s1 = Inr s2"
    by (cases "set_playback_position pl0 (PFloat (vd_playback_position vd))
      (PInt (vd_active_track_idx vd)) user s1") (auto simp: update_body_def Let_def s1_def)
  from ub g p obtain tds' where "sync_tracks pl0 (vd_tracks vd) s2 = (Inr (), tds', s')" "pl0 = pl"
    by (auto simp: update_body_def Let_def s1_def split: prod.splits sum.splits)
  with sync_tracks_ok [of pl "vd_tracks vd" s2 "()" tds' s'] u g p that [of user s1 s2 tds']
  show thesis by (simp add: s1_def i_def)
qed

lemma create_ok:
  assumes "create vd s = (Inr pl, s')"
  obtains user s1 s2 tds' where
    "user_get (vd_owner vd) s = Inr user"
    "pl = \<lparr>p_id = next_playlist_id s, p_name = vd_name vd, p_owner = Some user,
           p_public = vd_public vd\<rparr>"
    "s1 = s\<lparr>playlists := playlists s @ [pl], next_playlist_id := next_playlist_id s + 1\<rparr>"
    "set_playback_position pl (PInt (vd_active_track_idx vd)) (PFloat (vd_playback_position vd))
       user s1 = Inr s2"
    "sync_loop pl 0 (vd_tracks vd) (tracks_delete pl s2) = (Inr (), tds', s')"
proof -
  from assms obtain user where u: "user_get (vd_owner vd) s = Inr user"
    by (cases "user_get (vd_owner vd) s") (auto simp: create_def)
  with assms have cb: "create_body user vd s = (Inr pl, s')"
    by (auto simp: create_def atomic_def split: prod.splits)
  define pl0 where "pl0 = \<lparr>p_id = next_playlist_id s, p_name = vd_name vd, p_owner = Some user,
           p_public = vd_public vd\<rparr>"
  define s1 where "s1 = s\<lparr>playlists := playlists s @ [pl0],
      next_playlist_id := next_playlist_id s + 1\<rparr>"
  from cb obtain s2 where p: "set_playback_position pl0 (PInt (vd_active_track_idx vd))
      (PFloat (vd_playback_position vd)) user s1 = Inr s2"
    by (cases "set_playback_position pl0 (PInt (vd_active_track_idx vd))
      (PFloat (vd_playback_position vd)) user s1") (auto simp: create_body_def Let_def s1_def pl0_def)
  from cb p obtain tds' where "sync_tracks pl0 (vd_tracks vd) s2 = (Inr (), tds', s')" "pl0 = pl"
    by (auto simp: create_body_def Let_def s1_def pl0_def split: prod.splits sum.splits)
  with sync_tracks_ok [of pl "vd_tracks vd" s2 "()" tds' s'] u p that [of user s1 s2 tds']
  show thesis by (simp add: s1_def pl0_def)
qed

lemma save_ok_sync:
  assumes "update inst vd s = (Inr pl, s') \<or> create vd s = (Inr pl, s')"
  obtains s2 tds' where
    "sync_loop pl 0 (vd_tracks vd) (tracks_delete pl s2) = (Inr (), tds', s')"
    "files s2 = files s" "youtubes s2 = youtubes s" "tracks s2 = tracks s"
    "next_track_id s2 = next_track_id s" "next_youtube_id s2 = next_youtube_id s"
  using assms
proof
  assume "update inst vd s = (Inr pl, s')"
  then obtain user s1 s2 tds' where
    h: "s1 = playlist_update (case vd_id vd of None \<Rightarrow> - 1 | Some j \<Rightarrow> j) (vd_name vd) (vd_public vd) s"
    "set_playback_position pl (PFloat (vd_playback_position vd)) (PInt (vd_active_track_idx vd))
       user s1 = Inr s2"
    "sync_loop pl 0 (vd_tracks vd) (tracks_delete pl s2) = (Inr (), tds', s')"
    by (rule update_ok)
  from h(1,2) have "files s2 = files s" "youtubes s2 = youtubes s" "tracks s2 = tracks s"
    "next_track_id s2 = next_track_id s" "next_youtube_id s2 = next_youtube_id s"
    by (simp_all add: set_pp_fields playlist_update_def)
  with h(3) that show thesis by blast
next
  assume "create vd s = (Inr pl, s')"
  then obtain user s1 s2 tds' where
    h: "s1 = s\<lparr>playlists := playlists s @ [pl], next_playlist_id := next_playlist_id s + 1\<rparr>"
    "set_playback_position pl (PInt (vd_active_track_idx vd)) (PFloat (vd_playback_position vd))
       user s1 = Inr s2"
    "sync_loop pl 0 (vd_tracks vd) (tracks_delete pl s2) = (Inr (), tds', s')"
    by (rule create_ok)
  from h(1,2) have "files s2 = files s" "youtubes s2 = youtubes s" "tracks s2 = tracks s"
    "next_track_id s2 = next_track_id s" "next_youtube_id s2 = next_youtube_id s"
    by (simp_all add: set_pp_fields)
  with h(3) that show thesis by blast
qed

section \<open>The order of the tracks\<close>

lemma playlist_tracks_after:
  assumes "tracks s' = tracks (tracks_delete pl s2) @ ns" "\<forall>t\<in>set ns. t_playlist t = p_id pl"
  shows "playlist_tracks pl s' = ns"
proof -
  have "filter (\<lambda>t. t_playlist t = p_id pl) (tracks (tracks_delete pl s2)) = []"
    by (simp add: tracks_delete_def filter_empty_conv)
  moreover have "filter (\<lambda>t. t_playlist t = p_id pl) ns = ns"
    using assms(2) by (simp add: filter_id_conv)
  ultimately show ?thesis using assms(1) by (simp add: playlist_tracks_def)
qed

lemma map_enumerate_index:
  "map (\<lambda>(i, x). f i) (enumerate n xs) = map f [n..<n + length xs]"
  by (induction xs arbitrary: n) (simp_all add: upt_conv_Cons del: upt_Suc)

text \<open>
  Claim C2 (order preservation). After an \<open>update\<close> or a \<open>create\<close> that returns, the
  tracks of the playlist are as many as the submitted descriptors and stand in their
  sequence: the \<^verbatim>\<open>order\<close> values are \<open>0, 1, ..., N - 1\<close>, whatever \<^verbatim>\<open>order\<close> the
  descriptors carried; the other columns of the track at index \<open>i\<close> are those of the
  descriptor at index \<open>i\<close>, and its File is the one that descriptor names.
\<close>

theorem order_preserved:
  assumes "update inst vd s = (Inr pl, s') \<or> create vd s = (Inr pl, s')"
  shows "map t_order (playlist_tracks pl s') =
           map (\<lambda>i. Some (PInt (int i))) [0..<length (vd_tracks vd)] \<and>
         map t_fields (playlist_tracks pl s') =
           map (\<lambda>(i, td). stripped i td) (enumerate 0 (vd_tracks vd)) \<and>
         list_all2 (\<lambda>t td. \<exists>fv. map_of td ''file'' = Some fv \<and> resolve_file fv s = Inr (t_file t))
           (playlist_tracks pl s') (vd_tracks vd)"
proof -
  from assms obtain s2 tds' where
    sl: "sync_loop pl 0 (vd_tracks vd) (tracks_delete pl s2) = (Inr (), tds', s')"
    and fs: "files s2 = files s"
    by (rule save_ok_sync)
  from sync_loop_ok [OF sl] obtain ns where
    ns: "tds' = map (\<lambda>(i, td). stripped i td) (enumerate 0 (vd_tracks vd))"
        "tracks s' = tracks (tracks_delete pl s2) @ ns" "map t_fields ns = tds'"
        "\<forall>t\<in>set ns. t_playlist t = p_id pl"
        "list_all2 (\<lambda>t td. \<exists>fv. map_of td ''file'' = Some fv \<and>
            resolve_file fv (tracks_delete pl s2) = Inr (t_file t)) ns (vd_tracks vd)"
    by blast
  have pt: "playlist_tracks pl s' = ns" using ns(2,4) by (rule playlist_tracks_after)
  have "files (tracks_delete pl s2) = files s" using fs by (simp add: tracks_delete_def)
  then have rf: "\<And>fv. resolve_file fv (tracks_delete pl s2) = resolve_file fv s"
    by (rule resolve_file_files)
  have "map t_order ns = map (\<lambda>d. map_of d ''order'') (map t_fields ns)"
    by (simp add: t_order_def comp_def)
  also have "\<dots> = map (\<lambda>(i, td). Some (PInt (int i))) (enumerate 0 (vd_tracks vd))"
    unfolding ns(3) ns(1) by (simp add: comp_def case_prod_beta stripped_keys)
  also have "\<dots> = map (\<lambda>i. Some (PInt (int i))) [0..<length (vd_tracks vd)]"
    using map_enumerate_index [of "\<lambda>i. Some (PInt (int i))" 0 "vd_tracks vd"] by simp
  finally have "map t_order ns = map (\<lambda>i. Some (PInt (int i))) [0..<length (vd_tracks vd)]" .
  with ns(1,3,5) show ?thesis unfolding pt rf by simp
qed

text \<open>
  The submitted descriptors carry the \<^verbatim>\<open>order\<close> values 5 and 9; the tracks get 0 and 1,
  on the update path and on the create path.
\<close>

theorem order_preserved_witness:
  "map t_order (playlist_tracks ex_playlist
      (snd (update ex_playlist (ex_vd [file_td 3, yt_td ''abc'' ''first'']) ex_db))) =
     [Some (PInt 0), Some (PInt 1)] \<and>
   map t_order (playlist_tracks \<lparr>p_id = 2, p_name = ''new'', p_owner = Some 8, p_public = True\<rparr>
      (snd (create (ex_vd [file_td 3, yt_td ''abc'' ''first'']) ex_db))) =
     [Some (PInt 0), Some (PInt 1)]"
proof -
  have u: "update ex_playlist (ex_vd [file_td 3, yt_td ''abc'' ''first'']) ex_db =
     (Inr \<lparr>p_id = 1, p_name = ''new'', p_owner = Some 7, p_public = True\<rparr>,
      snd (update ex_playlist (ex_vd [file_td 3, yt_td ''abc'' ''first'']) ex_db))"
    by (simp add: model_defs example_defs)
  have c: "create (ex_vd [file_td 3, yt_td ''abc'' ''first'']) ex_db =
     (Inr \<lparr>p_id = 2, p_name = ''new'', p_owner = Some 8, p_public = True\<rparr>,
      snd (create (ex_vd [file_td 3, yt_td ''abc'' ''first'']) ex_db))"
    by (simp add: model_defs example_defs)
  have same: "playlist_tracks \<lparr>p_id = 1, p_name = ''new'', p_owner = Some 7, p_public = True\<rparr> =
      playlist_tracks ex_playlist"
    by (simp add: playlist_tracks_def ex_playlist_def fun_eq_iff)
  have n: "map (\<lambda>i. Some (PInt (int i))) [0..<length (vd_tracks (ex_vd [file_td 3, yt_td ''abc'' ''first'']))]
     = [Some (PInt 0), Some (PInt 1)]"
    by (simp add: ex_vd_def upt_conv_Cons del: upt_Suc)
  from order_preserved [OF disjI1, OF u] order_preserved [OF disjI2, OF c]
  show ?thesis unfolding same n by blast
qed

section \<open>External entries\<close>

lemma yt_match_frame: "youtubes t = youtubes s \<Longrightarrow> yt_match w t = yt_match w s"
  by (simp add: yt_match_def)

lemma get_or_create_found:
  "yt_match v s = [z] \<Longrightarrow> youtube_get_or_create v a s = Inr (y_id z, s)"
  by (simp add: youtube_get_or_create_def)

lemma get_or_create_result:
  assumes "youtube_get_or_create v a s = Inr (yid, s1)"
  shows "\<exists>z. yt_match v s1 = [z] \<and> y_id z = yid \<and>
             (yt_match v s = [] \<longrightarrow> y_video_id z = v \<and> y_attrs z = a)"
proof (cases "yt_match v s")
  case Nil
  with assms show ?thesis
    by (auto simp: youtube_get_or_create_def) (simp add: yt_match_def)
next
  case (Cons z zs)
  with assms show ?thesis
    by (auto simp: youtube_get_or_create_def split: list.splits)
qed

lemma get_or_create_keeps:
  assumes "youtube_get_or_create v a s = Inr (yid, s1)" "yt_match w s = [z]"
  shows "yt_match w s1 = [z]"
proof (cases "yt_match v s")
  case Nil
  with assms(2) have "w \<noteq> v" by auto
  with assms Nil show ?thesis
    by (auto simp: youtube_get_or_create_def) (simp add: yt_match_def)
next
  case (Cons z' zs)
  with assms show ?thesis
    by (auto simp: youtube_get_or_create_def split: list.splits)
qed

lemma get_or_create_other:
  assumes "youtube_get_or_create v a s = Inr (yid, s1)" "w \<noteq> v"
  shows "yt_match w s1 = yt_match w s"
proof (cases "yt_match v s")
  case Nil
  with assms show ?thesis
    by (auto simp: youtube_get_or_create_def) (simp add: yt_match_def)
next
  case (Cons z' zs)
  with assms show ?thesis
    by (auto simp: youtube_get_or_create_def split: list.splits)
qed

lemma resolve_youtube_cases:
  assumes "resolve_youtube yv s = Inr (y, s1)"
  obtains (empty) "\<not> truthy yv" "y = None" "s1 = s"
  | (entry) yd v yid where "yv = PDict yd" "map_of yd ''youtube_id'' = Some v" "y = Some yid"
      "youtube_get_or_create v (delkey ''youtube_id'' yd) s = Inr (yid, s1)"
proof (cases "truthy yv")
  case False
  with assms empty show ?thesis by (simp add: resolve_youtube_def)
next
  case True
  with assms show ?thesis
    by (auto simp: resolve_youtube_def pop_eq
             split: pyval.splits option.splits sum.splits intro: entry)
qed

lemma resolve_youtube_keeps:
  assumes "resolve_youtube yv s = Inr (y, s1)" "yt_match w s = [z]"
  shows "yt_match w s1 = [z]"
  using assms(1)
proof (cases rule: resolve_youtube_cases)
  case empty
  with assms(2) show ?thesis by simp
next
  case (entry yd v yid)
  from get_or_create_keeps [OF entry(4) assms(2)] show ?thesis .
qed

lemma resolve_youtube_other:
  assumes "resolve_youtube yv s = Inr (y, s1)"
    "\<And>yd. yv = PDict yd \<Longrightarrow> map_of yd ''youtube_id'' \<noteq> Some w"
  shows "yt_match w s1 = yt_match w s"
  using assms(1)
proof (cases rule: resolve_youtube_cases)
  case empty
  then show ?thesis by simp
next
  case (entry yd v yid)
  with assms(2) have "w \<noteq> v" by auto
  with entry(4) show ?thesis by (rule get_or_create_other)
qed

lemma resolve_youtube_entry:
  assumes "resolve_youtube (PDict yd) s = Inr (y, s1)" "map_of yd ''youtube_id'' = Some v"
  shows "\<exists>z. yt_match v s1 = [z] \<and> y = Some (y_id z) \<and>
             (yt_match v s = [] \<longrightarrow> y_video_id z = v \<and> y_attrs z = delkey ''youtube_id'' yd)"
  using assms(1)
proof (cases rule: resolve_youtube_cases)
  case empty
  with assms(2) show ?thesis by auto
next
  case (entry yd' v' yid)
  with assms(2) have "yd' = yd" "v' = v" by auto
  with get_or_create_result [OF entry(4)] entry(3) show ?thesis by auto
qed

lemma track_create_yt: "yt_match w (track_create pl f y td s) = yt_match w s"
  by (simp add: yt_match_def track_create_def)

lemma sync_track_keeps:
  assumes "sync_track pl idx td s = (Inr u, td', s')" "yt_match w s = [z]"
  shows "yt_match w s' = [z]"
proof -
  from assms(1) obtain yv y s1 f where
    h: "resolve_youtube yv s = Inr (y, s1)" "s' = track_create pl f y (stripped idx td) s1"
    by (rule sync_track_ok)
  from resolve_youtube_keeps [OF h(1) assms(2)] h(2) show ?thesis
    by (simp add: track_create_yt)
qed

lemma sync_track_other:
  assumes "sync_track pl idx td s = (Inr u, td', s')" "\<not> carries td w"
  shows "yt_match w s' = yt_match w s"
proof -
  from assms(1) obtain yv y s1 f where
    h: "map_of td ''youtube'' = Some yv" "resolve_youtube yv s = Inr (y, s1)"
       "s' = track_create pl f y (stripped idx td) s1"
    by (rule sync_track_ok)
  from assms(2) h(1) have "\<And>yd. yv = PDict yd \<Longrightarrow> map_of yd ''youtube_id'' \<noteq> Some w"
    by (auto simp: carries_def)
  from resolve_youtube_other [OF h(2) this] h(3) show ?thesis
    by (simp add: track_create_yt)
qed

lemma sync_track_entry:
  assumes "sync_track pl idx td s = (Inr u, td', s')"
    "map_of td ''youtube'' = Some (PDict yd)" "map_of yd ''youtube_id'' = Some v"
  shows "\<exists>z. yt_match v s' = [z] \<and>
             (yt_match v s = [] \<longrightarrow> y_video_id z = v \<and> y_attrs z = delkey ''youtube_id'' yd)"
proof -
  from assms(1) obtain yv y s1 f where
    h: "map_of td ''youtube'' = Some yv" "resolve_youtube yv s = Inr (y, s1)"
       "s' = track_create pl f y (stripped idx td) s1"
    by (rule sync_track_ok)
  from h(1) assms(2) have yv: "yv = PDict yd" by simp
  from resolve_youtube_entry [OF h(2) [unfolded yv] assms(3)] obtain z where
    "yt_match v s1 = [z]"
    "yt_match v s = [] \<longrightarrow> y_video_id z = v \<and> y_attrs z = delkey ''youtube_id'' yd"
    by blast
  then show ?thesis unfolding h(3) by (simp add: track_create_yt)
qed

lemma sync_loop_step:
  assumes "sync_loop pl idx (td # rest) s = (Inr (), tds', s')"
  obtains td1 s1 rest1 where "sync_track pl idx td s = (Inr (), td1, s1)"
    "sync_loop pl (Suc idx) rest s1 = (Inr (), rest1, s')" "tds' = td1 # rest1"
proof -
  obtain r1 td1 s1 where st: "sync_track pl idx td s = (r1, td1, s1)"
    by (cases "sync_track pl idx td s") auto
  obtain r2 rest2 s2 where sl: "sync_loop pl (Suc idx) rest s1 = (r2, rest2, s2)"
    by (cases "sync_loop pl (Suc idx) rest s1") auto
  from assms st sl have "r1 = Inr ()" "r2 = Inr ()" "tds' = td1 # rest2" "s' = s2"
    by (auto split: sum.splits)
  with st sl that show thesis by simp
qed

lemma sync_loop_keeps:
  "sync_loop pl idx tds s = (Inr (), tds', s') \<Longrightarrow> yt_match w s = [z] \<Longrightarrow> yt_match w s' = [z]"
proof (induction tds arbitrary: idx s tds')
  case Nil
  then show ?case by simp
next
  case (Cons td rest)
  from Cons.prems(1) obtain td1 s1 rest1 where
    h: "sync_track pl idx td s = (Inr (), td1, s1)"
       "sync_loop pl (Suc idx) rest s1 = (Inr (), rest1, s')"
    by (rule sync_loop_step)
  from sync_track_keeps [OF h(1) Cons.prems(2)] have "yt_match w s1 = [z]" .
  with Cons.IH [OF h(2)] show ?case .
qed

lemma sync_loop_first_write:
  assumes "sync_loop pl idx (pre @ td # post) s = (Inr (), tds', s')"
    "\<forall>d\<in>set pre. \<not> carries d v"
    "map_of td ''youtube'' = Some (PDict yd)" "map_of yd ''youtube_id'' = Some v"
    "yt_match v s = []"
  shows "\<exists>z. yt_match v s' = [z] \<and> y_video_id z = v \<and> y_attrs z = delkey ''youtube_id'' yd"
  using assms(1,2,5)
proof (induction pre arbitrary: idx s tds')
  case Nil
  then have "sync_loop pl idx (td # post) s = (Inr (), tds', s')" by simp
  then obtain td1 s1 rest1 where
    h: "sync_track pl idx td s = (Inr (), td1, s1)"
       "sync_loop pl (Suc idx) post s1 = (Inr (), rest1, s')"
    by (rule sync_loop_step)
  from sync_track_entry [OF h(1) assms(3,4)] Nil.prems(3) obtain z where
    z: "yt_match v s1 = [z]" "y_video_id z = v" "y_attrs z = delkey ''youtube_id'' yd"
    by auto
  from sync_loop_keeps [OF h(2) z(1)] z(2,3) show ?case by simp
next
  case (Cons a pre)
  from Cons.prems(1) have "sync_loop pl idx (a # (pre @ td # post)) s = (Inr (), tds', s')"
    by simp
  then obtain td1 s1 rest1 where
    h: "sync_track pl idx a s = (Inr (), td1, s1)"
       "sync_loop pl (Suc idx) (pre @ td # post) s1 = (Inr (), rest1, s')"
    by (rule sync_loop_step)
  from Cons.prems(2) have "\<not> carries a v" "\<forall>d\<in>set pre. \<not> carries d v" by simp_all
  from sync_track_other [OF h(1) this(1)] Cons.prems(3) have "yt_match v s1 = []" by simp
  from Cons.IH [OF h(2) \<open>\<forall>d\<in>set pre. \<not> carries d v\<close> this] show ?case .
qed

text \<open>
  Claim C4 (external entries, first write wins). Let an external identifier have no
  Youtube entry yet. After a save that returns and whose first descriptor carrying the
  identifier supplies the attributes \<open>delkey ''youtube_id'' yd\<close>, the identifier has exactly
  one entry, with those attributes, whatever later descriptors of the same list carry; and
  after any further save that returns, whatever its descriptors carry for the identifier,
  the identifier still has exactly that one entry, unchanged.
\<close>

theorem external_first_write_wins:
  assumes "update inst1 vd1 s = (Inr pl1, s1) \<or> create vd1 s = (Inr pl1, s1)"
    and "vd_tracks vd1 = pre @ td # post" "\<forall>d\<in>set pre. \<not> carries d v"
    and "map_of td ''youtube'' = Some (PDict yd)" "map_of yd ''youtube_id'' = Some v"
    and "yt_match v s = []"
    and "update inst2 vd2 s1 = (Inr pl2, s2) \<or> create vd2 s1 = (Inr pl2, s2)"
  shows "\<exists>y. yt_match v s1 = [y] \<and> yt_match v s2 = [y] \<and> y_video_id y = v \<and>
             y_attrs y = delkey ''youtube_id'' yd"
proof -
  from assms(1) obtain sa tds1 where
    a: "sync_loop pl1 0 (vd_tracks vd1) (tracks_delete pl1 sa) = (Inr (), tds1, s1)"
       "youtubes sa = youtubes s"
    by (rule save_ok_sync)
  from a(2) assms(6) have "yt_match v (tracks_delete pl1 sa) = []"
    by (simp add: yt_match_def tracks_delete_def)
  from sync_loop_first_write [OF a(1) [unfolded assms(2)] assms(3,4,5) this] obtain y where
    y: "yt_match v s1 = [y]" "y_video_id y = v" "y_attrs y = delkey ''youtube_id'' yd"
    by blast
  from assms(7) obtain sb tds2 where
    b: "sync_loop pl2 0 (vd_tracks vd2) (tracks_delete pl2 sb) = (Inr (), tds2, s2)"
       "youtubes sb = youtubes s1"
    by (rule save_ok_sync)
  from b(2) y(1) have "yt_match v (tracks_delete pl2 sb) = [y]"
    by (simp add: yt_match_def tracks_delete_def)
  from sync_loop_keeps [OF b(1) this] y show ?thesis by blast
qed

text \<open>
  The first save carries \<^verbatim>\<open>abc\<close> twice, titled \<^verbatim>\<open>first\<close> and \<^verbatim>\<open>other\<close>; the second
  save carries it titled \<^verbatim>\<open>second\<close>. One entry remains, titled \<^verbatim>\<open>first\<close>.
\<close>

theorem external_first_write_wins_witness:
  "map (\<lambda>y. (y_video_id y, y_attrs y))
     (yt_match (PStr ''abc'')
       (snd (update ex_playlist (ex_vd [file_td 3, yt_td ''abc'' ''second''])
          (snd (update ex_playlist
                  (ex_vd [file_td 3, yt_td ''abc'' ''first'', yt_td ''abc'' ''other''])
                  ex_db))))) =
     [(PStr ''abc'', [(''title'', PStr ''first''), (''views'', PInt 10), (''duration'', PInt 100)])]"
proof -
  define pl where "pl = \<lparr>p_id = 1, p_name = ''new'', p_owner = Some 7, p_public = True\<rparr>"
  define s1 where "s1 = snd (update ex_playlist
     (ex_vd [file_td 3, yt_td ''abc'' ''first'', yt_td ''abc'' ''other'']) ex_db)"
  define s2 where "s2 = snd (update ex_playlist (ex_vd [file_td 3, yt_td ''abc'' ''second'']) s1)"
  have s1: "s1 = \<lparr>users = [7, 8], files = [3], playlists = [pl],
      tracks = [\<lparr>t_id = 2, t_playlist = 1, t_file = Some 3, t_youtube = None,
                  t_fields = [(''order'', PInt 0), (''type'', PInt 0)]\<rparr>,
                \<lparr>t_id = 3, t_playlist = 1, t_file = None, t_youtube = Some 1,
                  t_fields = [(''order'', PInt 1), (''type'', PInt 1)]\<rparr>,
                \<lparr>t_id = 4, t_playlist = 1, t_file = None, t_youtube = Some 1,
                  t_fields = [(''order'', PInt 2), (''type'', PInt 1)]\<rparr>],
      youtubes = [\<lparr>y_id = 1, y_video_id = PStr ''abc'',
         y_attrs = [(''title'', PStr ''first''), (''views'', PInt 10), (''duration'', PInt 100)]\<rparr>],
      positions = [\<lparr>pp_user_id = 7, pp_playlist = 1, pp_playback_position = PFloat 10,
                     pp_active_track_idx = PInt 0\<rparr>,
                   \<lparr>pp_user_id = 8, pp_playlist = 1, pp_playback_position = PInt 1,
                     pp_active_track_idx = PFloat 42.5\<rparr>],
      next_playlist_id = 2, next_track_id = 5, next_youtube_id = 2\<rparr>"
    unfolding s1_def pl_def by (simp add: model_defs example_defs)
  have u1: "update ex_playlist (ex_vd [file_td 3, yt_td ''abc'' ''first'', yt_td ''abc'' ''other''])
      ex_db = (Inr pl, s1)"
    unfolding s1_def pl_def by (simp add: model_defs example_defs)
  have u2: "update ex_playlist (ex_vd [file_td 3, yt_td ''abc'' ''second'']) s1 = (Inr pl, s2)"
    unfolding s2_def unfolding s1 pl_def by (simp add: model_defs example_defs)
  have 2: "vd_tracks (ex_vd [file_td 3, yt_td ''abc'' ''first'', yt_td ''abc'' ''other'']) =
      [file_td 3] @ yt_td ''abc'' ''first'' # [yt_td ''abc'' ''other'']"
    by (simp add: ex_vd_def)
  have 3: "\<forall>d\<in>set [file_td 3]. \<not> carries d (PStr ''abc'')"
    by (simp add: carries_def file_td_def)
  have 4: "map_of (yt_td ''abc'' ''first'') ''youtube'' =
      Some (PDict [(''youtube_id'', PStr ''abc''), (''title'', PStr ''first''),
                   (''views'', PInt 10), (''duration'', PInt 100)])"
    by (simp add: yt_td_def)
  have 5: "map_of [(''youtube_id'', PStr ''abc''), (''title'', PStr ''first''),
                   (''views'', PInt 10), (''duration'', PInt 100)] ''youtube_id'' = Some (PStr ''abc'')"
    by simp
  have 6: "yt_match (PStr ''abc'') ex_db = []"
    by (simp add: yt_match_def ex_db_def)
  from external_first_write_wins [OF disjI1 [OF u1] 2 3 4 5 6 disjI1 [OF u2]]
  show ?thesis unfolding s2_def [symmetric] s1_def [symmetric]
    by (auto simp: delkey_def)
qed

section \<open>Saving the same data again\<close>

lemma resolve_youtube_replay:
  assumes "resolve_youtube yv s = Inr (y, s1)"
    "\<And>w z. yt_match w s1 = [z] \<Longrightarrow> yt_match w t = [z]"
  shows "resolve_youtube yv t = Inr (y, t)"
  using assms(1)
proof (cases rule: resolve_youtube_cases)
  case empty
  then show ?thesis by (simp add: resolve_youtube_def)
next
  case (entry yd v yid)
  from get_or_create_result [OF entry(4)] obtain z where
    z: "yt_match v s1 = [z]" "y_id z = yid" by blast
  from assms(2) [OF z(1)] have "youtube_get_or_create v (delkey ''youtube_id'' yd) t = Inr (yid, t)"
    using z(2) by (simp add: get_or_create_found)
  moreover from entry(2) have "yd \<noteq> []" by auto
  ultimately show ?thesis using entry(1,2,3)
    by (simp add: resolve_youtube_def pop_eq)
qed

lemma sync_track_replay:
  assumes "sync_track pl idx td s = (Inr (), td', s')" "files t = files s"
    "\<And>w z. yt_match w s' = [z] \<Longrightarrow> yt_match w t = [z]"
  shows "\<exists>f y. tracks s' = tracks s @
                  [\<lparr>t_id = next_track_id s, t_playlist = p_id pl, t_file = f, t_youtube = y,
                    t_fields = td'\<rparr>] \<and>
               sync_track pl2 idx td t = (Inr (), td', track_create pl2 f y td' t)"
proof -
  from assms(1) obtain yv y s1 fv f where
    h: "map_of td ''youtube'' = Some yv" "resolve_youtube yv s = Inr (y, s1)"
       "map_of td ''file'' = Some fv" "resolve_file fv s1 = Inr f"
       "td' = stripped idx td" "s' = track_create pl f y (stripped idx td) s1"
    by (rule sync_track_ok)
  have "\<And>w z. yt_match w s1 = [z] \<Longrightarrow> yt_match w t = [z]"
    using assms(3) by (simp add: h(6) track_create_yt)
  with h(2) have ry: "resolve_youtube yv t = Inr (y, t)" by (rule resolve_youtube_replay)
  from h(2) have "files s1 = files s" "tracks s1 = tracks s" "next_track_id s1 = next_track_id s"
    by (simp_all add: resolve_youtube_fields)
  with assms(2) h(4) resolve_file_files [of t s1 fv] have rf: "resolve_file fv t = Inr f" by simp
  have "sync_track pl2 idx td t = (Inr (), td', track_create pl2 f y td' t)"
    using h(1,3,5) ry rf by (simp add: sync_track_unfold)
  moreover have "tracks s' = tracks s @
                  [\<lparr>t_id = next_track_id s, t_playlist = p_id pl, t_file = f, t_youtube = y,
                    t_fields = td'\<rparr>]"
    using h(5,6) \<open>tracks s1 = tracks s\<close> \<open>next_track_id s1 = next_track_id s\<close>
    by (simp add: track_create_def)
  ultimately show ?thesis by blast
qed

lemma sync_loop_replay:
  "sync_loop pl idx tds s = (Inr (), tds', s') \<Longrightarrow> files t = files s \<Longrightarrow>
   (\<And>w z. yt_match w s' = [z] \<Longrightarrow> yt_match w t = [z]) \<Longrightarrow>
   \<exists>ns ns' t'. sync_loop pl2 idx tds t = (Inr (), tds', t') \<and>
      tracks s' = tracks s @ ns \<and> tracks t' = tracks t @ ns' \<and>
      map track_content ns' = map track_content ns"
proof (induction tds arbitrary: idx s t tds')
  case Nil
  then show ?case by simp
next
  case (Cons td rest)
  from Cons.prems(1) obtain td1 s1 rest1 where
    h: "sync_track pl idx td s = (Inr (), td1, s1)"
       "sync_loop pl (Suc idx) rest s1 = (Inr (), rest1, s')" "tds' = td1 # rest1"
    by (rule sync_loop_step)
  have keep1: "\<And>w z. yt_match w s1 = [z] \<Longrightarrow> yt_match w t = [z]"
    using sync_loop_keeps [OF h(2)] Cons.prems(3) by blast
  from sync_track_replay [OF h(1) Cons.prems(2) keep1, of pl2] obtain f y where
    st: "tracks s1 = tracks s @
                  [\<lparr>t_id = next_track_id s, t_playlist = p_id pl, t_file = f, t_youtube = y,
                    t_fields = td1\<rparr>]"
        "sync_track pl2 idx td t = (Inr (), td1, track_create pl2 f y td1 t)"
    by blast
  define t1 where "t1 = track_create pl2 f y td1 t"
  have f1: "files t1 = files s1"
    using Cons.prems(2) sync_track_frame [OF h(1)] by (simp add: t1_def track_create_def)
  have keep2: "\<And>w z. yt_match w s' = [z] \<Longrightarrow> yt_match w t1 = [z]"
    using Cons.prems(3) by (simp add: t1_def track_create_yt)
  from Cons.IH [OF h(2) f1 keep2] obtain ns ns' t' where
    ih: "sync_loop pl2 (Suc idx) rest t1 = (Inr (), rest1, t')"
        "tracks s' = tracks s1 @ ns" "tracks t' = tracks t1 @ ns'"
        "map track_content ns' = map track_content ns"
    by blast
  let ?a = "\<lparr>t_id = next_track_id s, t_playlist = p_id pl, t_file = f, t_youtube = y,
             t_fields = td1\<rparr>"
  let ?b = "\<lparr>t_id = next_track_id t, t_playlist = p_id pl2, t_file = f, t_youtube = y,
             t_fields = td1\<rparr>"
  have "sync_loop pl2 idx (td # rest) t = (Inr (), tds', t')"
    using st(2) ih(1) h(3) by (simp add: t1_def)
  moreover have "tracks s' = tracks s @ (?a # ns)" using st(1) ih(2) by simp
  moreover have "tracks t' = tracks t @ (?b # ns')"
    using ih(3) by (simp add: t1_def track_create_def)
  moreover have "map track_content (?b # ns') = map track_content (?a # ns)"
    using ih(4) by (simp add: track_content_def)
  ultimately show ?case by blast
qed

lemma user_get_users: "users t = users s \<Longrightarrow> user_get owner t = user_get owner s"
  by (cases owner) (simp_all add: user_get_def)

lemma fresh_ids_disjoint:
  "set (map (\<lambda>k. (m::int) + int n + int k) [0..<n]) \<inter> set (map (\<lambda>k. m + int k) [0..<n]) = {}"
  by auto

lemma playlist_update_twice:
  "playlists s1 = playlists (playlist_update i n b s) \<Longrightarrow>
   playlists (playlist_update i n b s1) = playlists s1"
  by (simp add: playlist_update_def)

lemma set_pp_again:
  assumes "filter (pos_match (p_id pl) u) (positions s) = [r]"
  shows "\<exists>s'. set_playback_position pl a p u s = Inr s'"
  using assms by (simp add: set_playback_position_def)

lemma sync_tracks_replay:
  assumes "sync_loop pl 0 tds (tracks_delete pl sb) = (Inr (), tds', s1)"
    "files tb = files s1" "youtubes tb = youtubes s1" "next_track_id tb = next_track_id s1"
  shows "\<exists>s2. sync_tracks pl2 tds tb = (Inr (), tds', s2) \<and>
              tracks s2 = tracks (tracks_delete pl2 tb) @ playlist_tracks pl2 s2 \<and>
              map track_content (playlist_tracks pl2 s2) =
                map track_content (playlist_tracks pl s1) \<and>
              map t_order (playlist_tracks pl2 s2) = map t_order (playlist_tracks pl s1) \<and>
              set (map t_id (playlist_tracks pl2 s2)) \<inter> set (map t_id (playlist_tracks pl s1)) = {}"
proof -
  note fl = sync_loop_frame [OF assms(1)]
  have files: "files (tracks_delete pl2 tb) = files (tracks_delete pl sb)"
    using assms(2) fl by (simp add: tracks_delete_def)
  have keep: "\<And>w z. yt_match w s1 = [z] \<Longrightarrow> yt_match w (tracks_delete pl2 tb) = [z]"
    using assms(3) by (simp add: yt_match_def tracks_delete_def)
  from sync_loop_replay [OF assms(1) files keep, of pl2] obtain ns ns' s2 where
    re: "sync_loop pl2 0 tds (tracks_delete pl2 tb) = (Inr (), tds', s2)"
        "tracks s1 = tracks (tracks_delete pl sb) @ ns"
        "tracks s2 = tracks (tracks_delete pl2 tb) @ ns'"
        "map track_content ns' = map track_content ns"
    by blast
  have st2: "sync_tracks pl2 tds tb = (Inr (), tds', s2)"
    using re(1) by (simp add: sync_tracks_def atomic_def)
  from sync_loop_ok [OF assms(1)] obtain ms where
    ms: "tracks s1 = tracks (tracks_delete pl sb) @ ms" "\<forall>t\<in>set ms. t_playlist t = p_id pl"
        "map t_id ms = map (\<lambda>k. next_track_id (tracks_delete pl sb) + int k) [0..<length tds]"
        "next_track_id s1 = next_track_id (tracks_delete pl sb) + int (length tds)"
    by blast
  from sync_loop_ok [OF re(1)] obtain ms' where
    ms': "tracks s2 = tracks (tracks_delete pl2 tb) @ ms'" "\<forall>t\<in>set ms'. t_playlist t = p_id pl2"
        "map t_id ms' = map (\<lambda>k. next_track_id (tracks_delete pl2 tb) + int k) [0..<length tds]"
    by blast
  from ms(1) re(2) have "ms = ns" by simp
  from ms'(1) re(3) have "ms' = ns'" by simp
  have pt1: "playlist_tracks pl s1 = ns"
    using ms(1,2) unfolding \<open>ms = ns\<close> by (rule playlist_tracks_after)
  have pt2: "playlist_tracks pl2 s2 = ns'"
    using ms'(1,2) unfolding \<open>ms' = ns'\<close> by (rule playlist_tracks_after)
  have content: "map track_content ns' = map track_content ns" by (rule re(4))
  have "map t_order ns' = map (\<lambda>c. map_of (snd (snd c)) ''order'') (map track_content ns')"
    by (simp add: t_order_def track_content_def comp_def)
  also have "\<dots> = map (\<lambda>c. map_of (snd (snd c)) ''order'') (map track_content ns)"
    by (simp only: content)
  also have "\<dots> = map t_order ns"
    by (simp add: t_order_def track_content_def comp_def)
  finally have orders: "map t_order ns' = map t_order ns" .
  have nt: "next_track_id (tracks_delete pl2 tb) =
            next_track_id (tracks_delete pl sb) + int (length tds)"
    using assms(4) ms(4) by (simp add: tracks_delete_def)
  have ids1: "map t_id ns = map (\<lambda>k. next_track_id (tracks_delete pl sb) + int k) [0..<length tds]"
    using ms(3) by (simp only: \<open>ms = ns\<close>)
  have ids2: "map t_id ns' = map (\<lambda>k. next_track_id (tracks_delete pl sb) +
                         int (length tds) + int k) [0..<length tds]"
    using ms'(3) by (simp only: \<open>ms' = ns'\<close> nt)
  have dis: "set (map t_id ns') \<inter> set (map t_id ns) = {}"
    unfolding ids1 ids2 by (rule fresh_ids_disjoint)
  have "sync_tracks pl2 tds tb = (Inr (), tds', s2) \<and>
        tracks s2 = tracks (tracks_delete pl2 tb) @ playlist_tracks pl2 s2 \<and>
        map track_content (playlist_tracks pl2 s2) = map track_content (playlist_tracks pl s1) \<and>
        map t_order (playlist_tracks pl2 s2) = map t_order (playlist_tracks pl s1) \<and>
        set (map t_id (playlist_tracks pl2 s2)) \<inter> set (map t_id (playlist_tracks pl s1)) = {}"
    unfolding pt1 pt2 by (intro conjI) (rule st2, rule re(3), rule content, rule orders, rule dis)
  then show ?thesis by (rule exI)
qed

lemma update_resave:
  assumes "update inst vd s = (Inr pl, s1)"
  shows "\<exists>s2. update inst2 vd s1 = (Inr pl, s2) \<and>
              map track_content (playlist_tracks pl s2) =
                map track_content (playlist_tracks pl s1) \<and>
              map t_order (playlist_tracks pl s2) = map t_order (playlist_tracks pl s1) \<and>
              set (map t_id (playlist_tracks pl s2)) \<inter> set (map t_id (playlist_tracks pl s1)) = {}"
proof -
  define i where "i = (case vd_id vd of None \<Rightarrow> - 1 | Some j \<Rightarrow> j)"
  from assms obtain user sa sb tds' where
    a: "user_get (vd_owner vd) s = Inr user"
       "sa = playlist_update i (vd_name vd) (vd_public vd) s"
       "objects_get Playlist (filter (\<lambda>p. p_id p = i) (playlists sa)) = Inr pl"
       "set_playback_position pl (PFloat (vd_playback_position vd)) (PInt (vd_active_track_idx vd))
          user sa = Inr sb"
       "sync_loop pl 0 (vd_tracks vd) (tracks_delete pl sb) = (Inr (), tds', s1)"
    unfolding i_def by (rule update_ok)
  note fl = sync_loop_frame [OF a(5)]
  note fb = set_pp_fields [OF a(4)]
  have "users s1 = users s"
    using fl fb by (simp add: tracks_delete_def a(2) playlist_update_def)
  then have "user_get (vd_owner vd) s1 = user_get (vd_owner vd) s"
    by (rule user_get_users)
  with a(1) have u2: "user_get (vd_owner vd) s1 = Inr user" by simp
  define ta where "ta = playlist_update i (vd_name vd) (vd_public vd) s1"
  have "playlists s1 = playlists sa"
    using fl fb by (simp add: tracks_delete_def)
  then have "playlists ta = playlists sa"
    unfolding ta_def a(2) by (simp add: playlist_update_twice)
  with a(3) have g2: "objects_get Playlist (filter (\<lambda>p. p_id p = i) (playlists ta)) = Inr pl"
    by simp
  have "positions ta = positions sb"
    using fl by (simp add: ta_def playlist_update_def tracks_delete_def)
  with set_pp_row [OF a(4)] obtain r where
    "filter (pos_match (p_id pl) user) (positions ta) = [r]" by simp
  from set_pp_again [OF this] obtain tb where
    p2: "set_playback_position pl (PFloat (vd_playback_position vd))
           (PInt (vd_active_track_idx vd)) user ta = Inr tb"
    by blast
  note ftb = set_pp_fields [OF p2]
  have f: "files tb = files s1" "youtubes tb = youtubes s1" "next_track_id tb = next_track_id s1"
    using ftb by (simp_all add: ta_def playlist_update_def)
  from sync_tracks_replay [OF a(5) f, of pl] obtain s2 where
    re: "sync_tracks pl (vd_tracks vd) tb = (Inr (), tds', s2)"
        "map track_content (playlist_tracks pl s2) = map track_content (playlist_tracks pl s1)"
        "map t_order (playlist_tracks pl s2) = map t_order (playlist_tracks pl s1)"
        "set (map t_id (playlist_tracks pl s2)) \<inter> set (map t_id (playlist_tracks pl s1)) = {}"
    by blast
  have ub: "update_body i user vd s1 = (Inr pl, s2)"
    using g2 p2 re(1) by (simp add: update_body_def Let_def ta_def)
  have up: "update inst2 vd s1 = (Inr pl, s2)"
    using u2 ub by (simp add: update_def Let_def i_def atomic_def)
  have "update inst2 vd s1 = (Inr pl, s2) \<and>
        map track_content (playlist_tracks pl s2) = map track_content (playlist_tracks pl s1) \<and>
        map t_order (playlist_tracks pl s2) = map t_order (playlist_tracks pl s1) \<and>
        set (map t_id (playlist_tracks pl s2)) \<inter> set (map t_id (playlist_tracks pl s1)) = {}"
    by (intro conjI) (rule up, rule re(2), rule re(3), rule re(4))
  then show ?thesis by (rule exI)
qed

lemma create_next_playlist_id:
  assumes "create vd s = (Inr pl, s1)"
  shows "p_id pl = next_playlist_id s" "next_playlist_id s1 = next_playlist_id s + 1"
    "users s1 = users s"
proof -
  from assms obtain user sa sb tds' where
    a: "pl = \<lparr>p_id = next_playlist_id s, p_name = vd_name vd, p_owner = Some user,
               p_public = vd_public vd\<rparr>"
       "sa = s\<lparr>playlists := playlists s @ [pl], next_playlist_id := next_playlist_id s + 1\<rparr>"
       "set_playback_position pl (PInt (vd_active_track_idx vd)) (PFloat (vd_playback_position vd))
          user sa = Inr sb"
       "sync_loop pl 0 (vd_tracks vd) (tracks_delete pl sb) = (Inr (), tds', s1)"
    by (rule create_ok)
  note fl = sync_loop_frame [OF a(4)]
  note fb = set_pp_fields [OF a(3)]
  show "p_id pl = next_playlist_id s" by (simp add: a(1))
  show "next_playlist_id s1 = next_playlist_id s + 1"
    using fl fb by (simp add: tracks_delete_def a(2))
  show "users s1 = users s"
    using fl fb by (simp add: tracks_delete_def a(2))
qed

lemma create_resave_same:
  assumes "create vd s = (Inr pl, s1)" "create vd s1 = (Inr pl2, s2)"
  shows "playlist_tracks pl s2 = playlist_tracks pl s1 \<and>
         map track_content (playlist_tracks pl2 s2) = map track_content (playlist_tracks pl s1) \<and>
         map t_order (playlist_tracks pl2 s2) = map t_order (playlist_tracks pl s1) \<and>
         set (map t_id (playlist_tracks pl2 s2)) \<inter> set (map t_id (playlist_tracks pl s1)) = {}"
proof -
  from assms(1) obtain user sa sb tds' where
    a: "sync_loop pl 0 (vd_tracks vd) (tracks_delete pl sb) = (Inr (), tds', s1)"
    by (rule create_ok)
  from assms(2) obtain user2 ta tb tds2 where
    b: "ta = s1\<lparr>playlists := playlists s1 @ [pl2], next_playlist_id := next_playlist_id s1 + 1\<rparr>"
       "set_playback_position pl2 (PInt (vd_active_track_idx vd))
          (PFloat (vd_playback_position vd)) user2 ta = Inr tb"
       "sync_loop pl2 0 (vd_tracks vd) (tracks_delete pl2 tb) = (Inr (), tds2, s2)"
    by (rule create_ok)
  note ftb = set_pp_fields [OF b(2)]
  have f: "files tb = files s1" "youtubes tb = youtubes s1" "next_track_id tb = next_track_id s1"
    using ftb by (simp_all add: b(1))
  from sync_tracks_replay [OF a f, of pl2] obtain s2' where
    re: "sync_tracks pl2 (vd_tracks vd) tb = (Inr (), tds', s2')"
        "tracks s2' = tracks (tracks_delete pl2 tb) @ playlist_tracks pl2 s2'"
        "map track_content (playlist_tracks pl2 s2') = map track_content (playlist_tracks pl s1)"
        "map t_order (playlist_tracks pl2 s2') = map t_order (playlist_tracks pl s1)"
        "set (map t_id (playlist_tracks pl2 s2')) \<inter> set (map t_id (playlist_tracks pl s1)) = {}"
    by blast
  have "sync_tracks pl2 (vd_tracks vd) tb = (Inr (), tds2, s2)"
    using b(3) by (simp add: sync_tracks_def atomic_def)
  with re(1) have s2: "s2' = s2" by simp
  have ne: "p_id pl \<noteq> p_id pl2"
    using create_next_playlist_id [OF assms(1)] create_next_playlist_id(1) [OF assms(2)] by simp
  have "tracks tb = tracks s1" using ftb by (simp add: b(1))
  then have "tracks s2 = filter (\<lambda>t. t_playlist t \<noteq> p_id pl2) (tracks s1) @
                          filter (\<lambda>t. t_playlist t = p_id pl2) (tracks s2)"
    using re(2) unfolding s2 by (simp add: tracks_delete_def playlist_tracks_def)
  then have "playlist_tracks pl s2 =
      filter (\<lambda>t. t_playlist t = p_id pl) (filter (\<lambda>t. t_playlist t \<noteq> p_id pl2) (tracks s1)) @
      filter (\<lambda>t. t_playlist t = p_id pl) (filter (\<lambda>t. t_playlist t = p_id pl2) (tracks s2))"
    unfolding playlist_tracks_def by (metis filter_append)
  also have "filter (\<lambda>t. t_playlist t = p_id pl) (filter (\<lambda>t. t_playlist t = p_id pl2) (tracks s2)) = []"
    using ne by (simp add: filter_empty_conv)
  also have "filter (\<lambda>t. t_playlist t = p_id pl) (filter (\<lambda>t. t_playlist t \<noteq> p_id pl2) (tracks s1)) =
             filter (\<lambda>t. t_playlist t = p_id pl) (tracks s1)"
    using ne by (auto intro: filter_cong)
  finally have keep: "playlist_tracks pl s2 = playlist_tracks pl s1"
    by (simp add: playlist_tracks_def)
  show ?thesis
    using re(3,4,5) unfolding s2 by (intro conjI) (rule keep, assumption+)
qed

lemma create_resave_returns:
  assumes "create vd s = (Inr pl, s1)" "distinct (position_keys s)"
  shows "\<exists>pl2 s2. create vd s1 = (Inr pl2, s2)"
proof -
  from assms(1) obtain user sa sb tds' where
    a: "user_get (vd_owner vd) s = Inr user"
       "sa = s\<lparr>playlists := playlists s @ [pl], next_playlist_id := next_playlist_id s + 1\<rparr>"
       "set_playback_position pl (PInt (vd_active_track_idx vd)) (PFloat (vd_playback_position vd))
          user sa = Inr sb"
       "sync_loop pl 0 (vd_tracks vd) (tracks_delete pl sb) = (Inr (), tds', s1)"
    by (rule create_ok)
  note fl = sync_loop_frame [OF a(4)]
  have "user_get (vd_owner vd) s1 = user_get (vd_owner vd) s"
    using create_next_playlist_id(3) [OF assms(1)] by (rule user_get_users)
  with a(1) have u2: "user_get (vd_owner vd) s1 = Inr user" by simp
  have "distinct (position_keys sa)" using assms(2) by (simp add: position_keys_def a(2))
  with a(3) have "distinct (position_keys sb)" by (rule set_pp_distinct)
  moreover have "positions s1 = positions sb" using fl by (simp add: tracks_delete_def)
  ultimately have d1: "distinct (position_keys s1)" by (simp add: position_keys_def)
  define pl2 where "pl2 = \<lparr>p_id = next_playlist_id s1, p_name = vd_name vd, p_owner = Some user,
               p_public = vd_public vd\<rparr>"
  define ta where "ta = s1\<lparr>playlists := playlists s1 @ [pl2],
               next_playlist_id := next_playlist_id s1 + 1\<rparr>"
  have "distinct (position_keys ta)" using d1 by (simp add: position_keys_def ta_def)
  from set_pp_returns [OF this] obtain tb where
    p2: "set_playback_position pl2 (PInt (vd_active_track_idx vd))
           (PFloat (vd_playback_position vd)) user ta = Inr tb"
    by blast
  note ftb = set_pp_fields [OF p2]
  have f: "files tb = files s1" "youtubes tb = youtubes s1" "next_track_id tb = next_track_id s1"
    using ftb by (simp_all add: ta_def)
  from sync_tracks_replay [OF a(4) f, of pl2] obtain s2 where
    re: "sync_tracks pl2 (vd_tracks vd) tb = (Inr (), tds', s2)"
    by blast
  have cb: "create_body user vd s1 = (Inr pl2, s2)"
    using p2 re by (simp add: create_body_def Let_def ta_def pl2_def)
  have "create vd s1 = (Inr pl2, s2)"
    using u2 cb by (simp add: create_def atomic_def)
  then show ?thesis by blast
qed

lemma create_resave_keeps:
  assumes "create vd s = (Inr pl, s1)"
  shows "playlist_tracks pl (snd (create vd s1)) = playlist_tracks pl s1"
proof (cases "fst (create vd s1)")
  case (Inl e)
  then have "create vd s1 = (Inl e, snd (create vd s1))" by (metis prod.collapse)
  from create_raises_unchanged [OF this] show ?thesis by simp
next
  case (Inr pl2)
  then have "create vd s1 = (Inr pl2, snd (create vd s1))" by (metis prod.collapse)
  from create_resave_same [OF assms this] show ?thesis by (rule conjunct1)
qed

text \<open>
  Claim C8 (idempotent re-save). Saving the same validated data twice in a row leaves the
  same tracks. On the update path: when \<open>update\<close> returns, a second \<open>update\<close> with the
  same data on the resulting database returns too, with the same playlist, and the tracks
  of the playlist have the same contents in the same sequence (File, Youtube entry,
  \<^verbatim>\<open>order\<close> and the other columns). On the create path: when \<open>create\<close> returns, a second
  \<open>create\<close> with the same data leaves the tracks of the first playlist as they are,
  whatever it returns; when it returns, the tracks of the playlist it returns have the same
  contents in the same sequence as those of the first; and it does return when the
  PlaylistPosition table had no two rows with the same (playlist, user) pair, as every
  table written by \<open>set_playback_position\<close> has. On both paths the track rows of the
  second call are new ones: none of their ids is an id of the first call's rows.
\<close>

theorem resave_idempotent:
  "(update inst vd s = (Inr pl, s1) \<longrightarrow>
      (\<exists>s2. update inst2 vd s1 = (Inr pl, s2) \<and>
            map track_content (playlist_tracks pl s2) =
              map track_content (playlist_tracks pl s1) \<and>
            map t_order (playlist_tracks pl s2) = map t_order (playlist_tracks pl s1) \<and>
            set (map t_id (playlist_tracks pl s2)) \<inter> set (map t_id (playlist_tracks pl s1)) = {})) \<and>
   (create vd s = (Inr pl, s1) \<longrightarrow>
      playlist_tracks pl (snd (create vd s1)) = playlist_tracks pl s1 \<and>
      (\<forall>pl2 s2. create vd s1 = (Inr pl2, s2) \<longrightarrow>
            map track_content (playlist_tracks pl2 s2) =
              map track_content (playlist_tracks pl s1) \<and>
            map t_order (playlist_tracks pl2 s2) = map t_order (playlist_tracks pl s1) \<and>
            set (map t_id (playlist_tracks pl2 s2)) \<inter> set (map t_id (playlist_tracks pl s1)) = {}) \<and>
      (distinct (position_keys s) \<longrightarrow> (\<exists>pl2 s2. create vd s1 = (Inr pl2, s2))))"
proof (intro conjI impI allI)
  assume "update inst vd s = (Inr pl, s1)"
  then show "\<exists>s2. update inst2 vd s1 = (Inr pl, s2) \<and>
            map track_content (playlist_tracks pl s2) =
              map track_content (playlist_tracks pl s1) \<and>
            map t_order (playlist_tracks pl s2) = map t_order (playlist_tracks pl s1) \<and>
            set (map t_id (playlist_tracks pl s2)) \<inter> set (map t_id (playlist_tracks pl s1)) = {}"
    by (rule update_resave)
next
  assume "create vd s = (Inr pl, s1)"
  then show "playlist_tracks pl (snd (create vd s1)) = playlist_tracks pl s1"
    by (rule create_resave_keeps)
next
  fix pl2 s2
  assume c: "create vd s = (Inr pl, s1)" "create vd s1 = (Inr pl2, s2)"
  note r = create_resave_same [OF c]
  show "map track_content (playlist_tracks pl2 s2) = map track_content (playlist_tracks pl s1)"
    using r by (elim conjE)
  show "map t_order (playlist_tracks pl2 s2) = map t_order (playlist_tracks pl s1)"
    using r by (elim conjE)
  show "set (map t_id (playlist_tracks pl2 s2)) \<inter> set (map t_id (playlist_tracks pl s1)) = {}"
    using r by (elim conjE)
next
  assume "create vd s = (Inr pl, s1)" "distinct (position_keys s)"
  then show "\<exists>pl2 s2. create vd s1 = (Inr pl2, s2)"
    by (rule create_resave_returns)
qed

text \<open>
  The same two descriptors saved twice on the example database, by \<open>update\<close> and by
  \<open>create\<close>.
\<close>

theorem resave_idempotent_witness:
  "map track_content (playlist_tracks ex_playlist
      (snd (update ex_playlist (ex_vd [file_td 3, yt_td ''abc'' ''first''])
         (snd (update ex_playlist (ex_vd [file_td 3, yt_td ''abc'' ''first'']) ex_db))))) =
   map track_content (playlist_tracks ex_playlist
      (snd (update ex_playlist (ex_vd [file_td 3, yt_td ''abc'' ''first'']) ex_db))) \<and>
   distinct (position_keys ex_db) \<and>
   (\<exists>pl2 s2.
      create (ex_vd [file_td 3, yt_td ''abc'' ''first''])
        (snd (create (ex_vd [file_td 3, yt_td ''abc'' ''first'']) ex_db)) = (Inr pl2, s2) \<and>
      map track_content (playlist_tracks pl2 s2) =
        map track_content
          (playlist_tracks \<lparr>p_id = 2, p_name = ''new'', p_owner = Some 8, p_public = True\<rparr>
             (snd (create (ex_vd [file_td 3, yt_td ''abc'' ''first'']) ex_db))))"
proof -
  define vd where "vd = ex_vd [file_td 3, yt_td ''abc'' ''first'']"
  define pl where "pl = \<lparr>p_id = 1, p_name = ''new'', p_owner = Some 7, p_public = True\<rparr>"
  define s1 where "s1 = snd (update ex_playlist vd ex_db)"
  define plc where "plc = \<lparr>p_id = 2, p_name = ''new'', p_owner = Some 8, p_public = True\<rparr>"
  define sc where "sc = snd (create vd ex_db)"
  have u1: "update ex_playlist vd ex_db = (Inr pl, s1)"
    unfolding s1_def pl_def vd_def by (simp add: model_defs example_defs)
  have c1: "create vd ex_db = (Inr plc, sc)"
    unfolding sc_def plc_def vd_def by (simp add: model_defs example_defs)
  have d: "distinct (position_keys ex_db)"
    by (simp add: position_keys_def ex_db_def)
  have same: "playlist_tracks pl = playlist_tracks ex_playlist"
    by (simp add: playlist_tracks_def ex_playlist_def pl_def fun_eq_iff)
  note w1 = resave_idempotent [of ex_playlist vd ex_db pl s1 ex_playlist, THEN conjunct1, THEN mp, OF u1]
  note w2 = resave_idempotent [of ex_playlist vd ex_db plc sc ex_playlist, THEN conjunct2, THEN mp, OF c1]
  from w1 obtain s2 where
    "update ex_playlist vd s1 = (Inr pl, s2)"
    "map track_content (playlist_tracks pl s2) = map track_content (playlist_tracks pl s1)"
    by blast
  then have a: "map track_content (playlist_tracks ex_playlist (snd (update ex_playlist vd s1))) =
      map track_content (playlist_tracks ex_playlist s1)"
    unfolding same by simp
  from w2 d obtain pl2 t2 where c2: "create vd sc = (Inr pl2, t2)" by blast
  with w2 have "map track_content (playlist_tracks pl2 t2) = map track_content (playlist_tracks plc sc)"
    by blast
  with c2 have b: "\<exists>pl2 s2. create vd sc = (Inr pl2, s2) \<and>
      map track_content (playlist_tracks pl2 s2) = map track_content (playlist_tracks plc sc)"
    by blast
  show ?thesis
    using a d b unfolding s1_def sc_def plc_def vd_def by (intro conjI)
qed

end
